theory Spec2Isabelle
  imports Complex_Main "HOL-Library.Monad_Syntax"
begin

section \<open>Dense and sparse arrays\<close>

text \<open>
  The program computes with \<^verbatim>\<open>numpy\<close> arrays and \<^verbatim>\<open>scipy.sparse\<close> matrices of
  64-bit floats. Both are modelled as lists of rows over the reals: floating-point rounding
  is idealised to exact arithmetic, and a sparse matrix is the dense matrix with the same
  entries. A one-dimensional array is a list. An operation that raises in Python
  (a dimension mismatch, a division by zero) returns \<open>None\<close>.

  A list of rows keeps no column count when it has no row; every statement below is about
  meshes with at least one face and one edge.
\<close>

type_synonym vec = "real list"
type_synonym mat = "real list list"

definition nrows :: "mat \<Rightarrow> nat" where
  "nrows A = length A"

definition ncols :: "mat \<Rightarrow> nat" where
  "ncols A = (case A of [] \<Rightarrow> 0 | r # _ \<Rightarrow> length r)"

definition is_mat :: "nat \<Rightarrow> nat \<Rightarrow> mat \<Rightarrow> bool" where
  "is_mat nr nc A \<longleftrightarrow> length A = nr \<and> (\<forall>r \<in> set A. length r = nc)"

definition mk_mat :: "nat \<Rightarrow> nat \<Rightarrow> (nat \<Rightarrow> nat \<Rightarrow> real) \<Rightarrow> mat" where
  "mk_mat nr nc f = map (\<lambda>i. map (f i) [0..<nc]) [0..<nr]"

text \<open>\<^verbatim>\<open>np.zeros((nr, nc))\<close>.\<close>

definition zero_mat :: "nat \<Rightarrow> nat \<Rightarrow> mat" where
  "zero_mat nr nc = mk_mat nr nc (\<lambda>i j. 0)"

text \<open>The identity matrix, used to say that one matrix is the inverse of another.\<close>

definition id_mat :: "nat \<Rightarrow> mat" where
  "id_mat n = mk_mat n n (\<lambda>i j. if i = j then 1 else 0)"

text \<open>The matrix product, \<^verbatim>\<open>A*B\<close> with \<^verbatim>\<open>A\<close> sparse, on matching shapes.\<close>

definition mat_mult :: "mat \<Rightarrow> mat \<Rightarrow> mat" where
  "mat_mult A B = mk_mat (nrows A) (ncols B) (\<lambda>i j. \<Sum>k<nrows B. A ! i ! k * B ! k ! j)"

text \<open>\<^verbatim>\<open>A.T\<close>.\<close>

definition mat_transpose :: "mat \<Rightarrow> mat" where
  "mat_transpose A = mk_mat (ncols A) (nrows A) (\<lambda>i j. A ! j ! i)"

text \<open>A scalar times an array, \<^verbatim>\<open>s*A\<close>.\<close>

definition smult :: "real \<Rightarrow> mat \<Rightarrow> mat" where
  "smult s A = map (map (\<lambda>x. s * x)) A"

text \<open>Entrywise sum and difference of two arrays of one shape.\<close>

definition mat_add :: "mat \<Rightarrow> mat \<Rightarrow> mat" where
  "mat_add A B = mk_mat (nrows A) (ncols A) (\<lambda>i j. A ! i ! j + B ! i ! j)"

definition mat_sub :: "mat \<Rightarrow> mat \<Rightarrow> mat" where
  "mat_sub A B = mk_mat (nrows A) (ncols A) (\<lambda>i j. A ! i ! j - B ! i ! j)"

text \<open>A sparse matrix times a one-dimensional array.\<close>

definition mat_vec :: "mat \<Rightarrow> vec \<Rightarrow> vec" where
  "mat_vec A v = map (\<lambda>r. \<Sum>k<length v. r ! k * v ! k) A"

subsection \<open>The operators as Python evaluates them\<close>

text \<open>
  \<^verbatim>\<open>A*B\<close> for a sparse \<^verbatim>\<open>A\<close> raises \<^verbatim>\<open>ValueError\<close> (dimension mismatch) unless the
  column count of \<^verbatim>\<open>A\<close> is the row count of \<^verbatim>\<open>B\<close>.
\<close>

definition mmul :: "mat \<Rightarrow> mat \<Rightarrow> mat option" where
  "mmul A B = (if ncols A = nrows B then Some (mat_mult A B) else None)"

definition mvmul :: "mat \<Rightarrow> vec \<Rightarrow> vec option" where
  "mvmul A v = (if ncols A = length v then Some (mat_vec A v) else None)"

text \<open>Sparse plus sparse: the shapes must agree.\<close>

definition sp_add :: "mat \<Rightarrow> mat \<Rightarrow> mat option" where
  "sp_add A B =
     (if nrows A = nrows B \<and> ncols A = ncols B then Some (mat_add A B) else None)"

text \<open>
  Dense plus or minus dense follows \<^verbatim>\<open>numpy\<close> broadcasting: along each axis the two
  extents are equal or one of them is 1, and an axis of extent 1 is repeated.
\<close>

definition bdim :: "nat \<Rightarrow> nat \<Rightarrow> nat" where
  "bdim a b = (if a = 1 then b else a)"

definition bcompat :: "nat \<Rightarrow> nat \<Rightarrow> bool" where
  "bcompat a b \<longleftrightarrow> a = b \<or> a = 1 \<or> b = 1"

definition bget :: "mat \<Rightarrow> nat \<Rightarrow> nat \<Rightarrow> real" where
  "bget A i j = A ! (if nrows A = 1 then 0 else i) ! (if ncols A = 1 then 0 else j)"

definition np_binop :: "(real \<Rightarrow> real \<Rightarrow> real) \<Rightarrow> mat \<Rightarrow> mat \<Rightarrow> mat option" where
  "np_binop f A B =
     (if bcompat (nrows A) (nrows B) \<and> bcompat (ncols A) (ncols B)
      then Some (mk_mat (bdim (nrows A) (nrows B)) (bdim (ncols A) (ncols B))
                   (\<lambda>i j. f (bget A i j) (bget B i j)))
      else None)"

definition np_add :: "mat \<Rightarrow> mat \<Rightarrow> mat option" where
  "np_add A B = np_binop (\<lambda>x y. x + y) A B"

definition np_sub :: "mat \<Rightarrow> mat \<Rightarrow> mat option" where
  "np_sub A B = np_binop (\<lambda>x y. x - y) A B"

text \<open>
  \<^verbatim>\<open>1/dt\<close> and \<^verbatim>\<open>1./dt\<close>. A step size is a floating-point number, so both are the true
  division; a zero step size has no reciprocal among the reals.
\<close>

definition py_recip :: "real \<Rightarrow> real option" where
  "py_recip d = (if d = 0 then None else Some (1 / d))"

text \<open>One-dimensional arrays: a column \<^verbatim>\<open>A[:,j]\<close>, the negation \<^verbatim>\<open>-a\<close>, sums and multiples.\<close>

definition col :: "mat \<Rightarrow> nat \<Rightarrow> vec" where
  "col A j = map (\<lambda>r. r ! j) A"

definition vneg :: "vec \<Rightarrow> vec" where
  "vneg a = map uminus a"

definition vadd :: "vec \<Rightarrow> vec \<Rightarrow> vec" where
  "vadd a c = map2 (\<lambda>x y. x + y) a c"

definition vsmult :: "real \<Rightarrow> vec \<Rightarrow> vec" where
  "vsmult s a = map (\<lambda>x. s * x) a"

text \<open>
  The elementwise product \<^verbatim>\<open>a*c\<close> of two one-dimensional arrays, with broadcasting: the
  lengths are equal, or one of them is 1.
\<close>

definition ew_mult :: "vec \<Rightarrow> vec \<Rightarrow> vec option" where
  "ew_mult a c =
     (if length a = length c then Some (map2 (\<lambda>x y. x * y) a c)
      else if length c = 1 then Some (map (\<lambda>x. x * c ! 0) a)
      else if length a = 1 then Some (map (\<lambda>y. a ! 0 * y) c)
      else None)"

text \<open>
  The column assignment \<^verbatim>\<open>A[:,j] = x\<close> for a column \<^verbatim>\<open>j\<close> of \<^verbatim>\<open>A\<close>: \<^verbatim>\<open>x\<close> has one
  entry per row, or a single entry that is repeated.
\<close>

definition set_col :: "mat \<Rightarrow> nat \<Rightarrow> vec \<Rightarrow> mat option" where
  "set_col A j x =
     (if length x = nrows A then Some (map2 (\<lambda>r y. r[j := y]) A x)
      else if length x = 1 then Some (map (\<lambda>r. r[j := x ! 0]) A)
      else None)"

text \<open>
  \<^verbatim>\<open>np.empty_like(A)\<close> has the shape of \<^verbatim>\<open>A\<close> and arbitrary entries; the model fills it
  with zeros.
\<close>

definition empty_like :: "mat \<Rightarrow> mat" where
  "empty_like A = zero_mat (nrows A) (ncols A)"

section \<open>The collaborators of the problem class\<close>

text \<open>
  The mesh supplies the discrete curl \<^verbatim>\<open>edgeCurl\<close> (edges to faces), the face and edge
  counts and \<^verbatim>\<open>getEdgeMassDeriv()\<close>. It is not part of the sources and is taken as given.
\<close>

record Mesh =
  edgeCurl :: mat
  nF :: nat
  nE :: nat
  getEdgeMassDeriv :: mat

subsection \<open>The field history\<close>

text \<open>
  Modelled from the spec: the class \<^verbatim>\<open>FieldsTDEM\<close> (its module is not among the sources).
  A field history holds two time-indexed sequences, \<^verbatim>\<open>e\<close> (one row per edge) and \<^verbatim>\<open>b\<close>
  (one row per face), of length the number of time steps, read and written by time index.
  The \<^verbatim>\<open>b\<close> field at index \<open>-1\<close> is the initial condition: zero unless it was seeded.
  A vector whose shape does not fit the mesh is refused, and so is an index outside the
  history or a slot that was never written. The two sequences of a history created for
  \<open>nT\<close> time steps have \<open>nT\<close> slots each.
\<close>

record FieldsTDEM =
  fmesh :: Mesh
  nTx :: nat
  nTimes :: nat
  b0 :: "mat option"
  b_hist :: "mat option list"
  e_hist :: "mat option list"

text \<open>\<^verbatim>\<open>FieldsTDEM(mesh, nTx, nT, 'b')\<close>.\<close>

definition FieldsTDEM_new :: "Mesh \<Rightarrow> nat \<Rightarrow> nat \<Rightarrow> FieldsTDEM" where
  "FieldsTDEM_new msh ntx nt =
     \<lparr>fmesh = msh, nTx = ntx, nTimes = nt, b0 = None,
      b_hist = replicate nt None, e_hist = replicate nt None\<rparr>"

definition get_b :: "FieldsTDEM \<Rightarrow> int \<Rightarrow> mat option" where
  "get_b F t =
     (if t = -1 then
        (case b0 F of Some v \<Rightarrow> Some v | None \<Rightarrow> Some (zero_mat (nF (fmesh F)) (nTx F)))
      else if 0 \<le> t \<and> nat t < length (b_hist F) then b_hist F ! nat t
      else None)"

definition get_e :: "FieldsTDEM \<Rightarrow> int \<Rightarrow> mat option" where
  "get_e F t =
     (if 0 \<le> t \<and> nat t < length (e_hist F) then e_hist F ! nat t else None)"

definition set_b :: "FieldsTDEM \<Rightarrow> mat \<Rightarrow> int \<Rightarrow> FieldsTDEM option" where
  "set_b F v t =
     (if 0 \<le> t \<and> nat t < length (b_hist F) \<and> is_mat (nF (fmesh F)) (nTx F) v
      then Some (F\<lparr>b_hist := (b_hist F)[nat t := Some v]\<rparr>)
      else None)"

definition set_e :: "FieldsTDEM \<Rightarrow> mat \<Rightarrow> int \<Rightarrow> FieldsTDEM option" where
  "set_e F v t =
     (if 0 \<le> t \<and> nat t < length (e_hist F) \<and> is_mat (nE (fmesh F)) (nTx F) v
      then Some (F\<lparr>e_hist := (e_hist F)[nat t := Some v]\<rparr>)
      else None)"

subsection \<open>The problem object\<close>

text \<open>
  The state of a \<^verbatim>\<open>ProblemTDEM_b\<close> object, as far as the class reads it: the mesh, the
  derivative of the model transform, the time mesh, the linear solver, and the three mass
  matrices. A mass matrix is an attribute that exists only once \<^verbatim>\<open>makeMassMatrices\<close> has
  run: \<open>None\<close> is the missing attribute, and reading it raises.

  The model transform, the linear solver and the assembly of the mass matrices from a model
  belong to other packages and to the base class; they are parameters of the state.
\<close>

record ProblemTDEM_b =
  mesh :: Mesh
  transformDeriv :: "vec \<Rightarrow> mat"
  timeSteps :: "real list"
  Solver :: "mat \<Rightarrow> mat \<Rightarrow> mat option"
  buildMeSigma :: "vec \<Rightarrow> mat"
  buildMeSigmaI :: "vec \<Rightarrow> mat"
  buildMfMui :: "vec \<Rightarrow> mat"
  MeSigma :: "mat option"
  MeSigmaI :: "mat option"
  MfMui :: "mat option"

text \<open>
  Modelled from the spec: \<^verbatim>\<open>makeMassMatrices\<close> of the base class. Given the model it
  stores \<^verbatim>\<open>MeSigma\<close>, \<^verbatim>\<open>MeSigmaI\<close> and \<^verbatim>\<open>MfMui\<close> in the object.
\<close>

definition makeMassMatrices :: "ProblemTDEM_b \<Rightarrow> vec \<Rightarrow> ProblemTDEM_b" where
  "makeMassMatrices st m =
     st\<lparr>MeSigma := Some (buildMeSigma st m),
        MeSigmaI := Some (buildMeSigmaI st m),
        MfMui := Some (buildMfMui st m)\<rparr>"

text \<open>
  Modelled from the spec: \<^verbatim>\<open>getDt\<close> of the base class returns the step size of a time
  index; \<^verbatim>\<open>self.times.size\<close> is the number of steps.
\<close>

definition getDt :: "ProblemTDEM_b \<Rightarrow> int \<Rightarrow> real option" where
  "getDt st tInd =
     (if 0 \<le> tInd \<and> tInd < int (length (timeSteps st)) then Some (timeSteps st ! nat tInd)
      else None)"

definition times_size :: "ProblemTDEM_b \<Rightarrow> nat" where
  "times_size st = length (timeSteps st)"

section \<open>The class \<^verbatim>\<open>ProblemTDEM_b\<close>\<close>

text \<open>
  \<^verbatim>\<open>getA\<close>: Python evaluates the product from the left,
  \<^verbatim>\<open>(((MfMui*edgeCurl)*MeSigmaI)*edgeCurl.T)*MfMui + (1/dt)*MfMui\<close>.
\<close>

definition getA :: "ProblemTDEM_b \<Rightarrow> int \<Rightarrow> mat option" where
  "getA st tInd = do {
     dt \<leftarrow> getDt st tInd;
     Mf \<leftarrow> MfMui st;
     t1 \<leftarrow> mmul Mf (edgeCurl (mesh st));
     MsI \<leftarrow> MeSigmaI st;
     t2 \<leftarrow> mmul t1 MsI;
     t3 \<leftarrow> mmul t2 (mat_transpose (edgeCurl (mesh st)));
     t4 \<leftarrow> mmul t3 Mf;
     r \<leftarrow> py_recip dt;
     sp_add t4 (smult r Mf)
   }"

text \<open>\<^verbatim>\<open>getRHS\<close>: \<^verbatim>\<open>((1/dt)*MfMui)*F.get_b(tInd-1)\<close>.\<close>

definition getRHS :: "ProblemTDEM_b \<Rightarrow> int \<Rightarrow> FieldsTDEM \<Rightarrow> mat option" where
  "getRHS st tInd F = do {
     dt \<leftarrow> getDt st tInd;
     r \<leftarrow> py_recip dt;
     Mf \<leftarrow> MfMui st;
     bprev \<leftarrow> get_b F (tInd - 1);
     mmul (smult r Mf) bprev
   }"

text \<open>
  Modelled from the spec: \<^verbatim>\<open>calcFields\<close> of the base class, the rule of the forward solve
  that derives \<^verbatim>\<open>e\<close> from the solution \<^verbatim>\<open>b\<close>: \<open>e = MeSigmaI \<cdot> curl\<^sup>T \<cdot> MfMui \<cdot> b\<close>.
\<close>

definition calcFields :: "ProblemTDEM_b \<Rightarrow> mat \<Rightarrow> int \<Rightarrow> (mat \<times> mat) option" where
  "calcFields st sol tInd = do {
     MsI \<leftarrow> MeSigmaI st;
     t1 \<leftarrow> mmul MsI (mat_transpose (edgeCurl (mesh st)));
     Mf \<leftarrow> MfMui st;
     t2 \<leftarrow> mmul t1 Mf;
     e \<leftarrow> mmul t2 sol;
     Some (sol, e)
   }"

text \<open>
  Modelled from the spec: the time-stepping driver \<^verbatim>\<open>fields\<close> of the base class. It
  builds the mass matrices for the model, creates a fresh field history and, for
  \<open>tInd = 0, \<dots>, nSteps - 1\<close> in this order, solves \<open>A(tInd) \<cdot> b[tInd] = rhs(tInd)\<close>,
  derives \<open>e[tInd]\<close> by the field rule and stores both. The builder of the right-hand side
  and the field rule are parameters (\<^verbatim>\<open>useThisRhs\<close>, \<^verbatim>\<open>useThisCalcFields\<close>); they read the
  object and so take the state. The fresh history is created as the class itself creates
  one, for a single transmitter.
\<close>

fun fields_loop ::
  "ProblemTDEM_b \<Rightarrow> (ProblemTDEM_b \<Rightarrow> int \<Rightarrow> FieldsTDEM \<Rightarrow> mat option) \<Rightarrow>
   (ProblemTDEM_b \<Rightarrow> mat \<Rightarrow> int \<Rightarrow> (mat \<times> mat) option) \<Rightarrow> FieldsTDEM \<Rightarrow> nat list \<Rightarrow>
   FieldsTDEM option" where
  "fields_loop st RHS CalcFields F [] = Some F"
| "fields_loop st RHS CalcFields F (t # ts) = do {
     A \<leftarrow> getA st (int t);
     rhs \<leftarrow> RHS st (int t) F;
     sol \<leftarrow> Solver st A rhs;
     (b, e) \<leftarrow> CalcFields st sol (int t);
     F1 \<leftarrow> set_b F b (int t);
     F2 \<leftarrow> set_e F1 e (int t);
     fields_loop st RHS CalcFields F2 ts
   }"

definition fields ::
  "ProblemTDEM_b \<Rightarrow> vec \<Rightarrow> (ProblemTDEM_b \<Rightarrow> int \<Rightarrow> FieldsTDEM \<Rightarrow> mat option) \<Rightarrow>
   (ProblemTDEM_b \<Rightarrow> mat \<Rightarrow> int \<Rightarrow> (mat \<times> mat) option) \<Rightarrow>
   (FieldsTDEM \<times> ProblemTDEM_b) option" where
  "fields st m RHS CalcFields =
     (let st1 = makeMassMatrices st m in do {
        F \<leftarrow> fields_loop st1 RHS CalcFields
               (FieldsTDEM_new (mesh st1) 1 (times_size st1)) [0..<times_size st1];
        Some (F, st1)
      })"

text \<open>
  \<^verbatim>\<open>G\<close>. The inner loop fills the columns of \<^verbatim>\<open>pVal\<close>, from the left:
  \<^verbatim>\<open>pVal[:,j] = -ei[:,j]*c\<close>.
\<close>

fun G_cols :: "mat \<Rightarrow> vec \<Rightarrow> mat \<Rightarrow> nat list \<Rightarrow> mat option" where
  "G_cols ei c pVal [] = Some pVal"
| "G_cols ei c pVal (j # js) = do {
     x \<leftarrow> ew_mult (vneg (col ei j)) c;
     pVal1 \<leftarrow> set_col pVal j x;
     G_cols ei c pVal1 js
   }"

fun G_loop :: "ProblemTDEM_b \<Rightarrow> FieldsTDEM \<Rightarrow> vec \<Rightarrow> FieldsTDEM \<Rightarrow> nat list \<Rightarrow> FieldsTDEM option" where
  "G_loop st u c p [] = Some p"
| "G_loop st u c p (i # is) = do {
     ei \<leftarrow> get_e u (int i);
     pVal \<leftarrow> G_cols ei c (empty_like ei) [0..<ncols ei];
     p1 \<leftarrow> set_e p pVal (int i);
     p2 \<leftarrow> set_b p1 (zero_mat (nF (mesh st)) 1) (int i);
     G_loop st u c p2 is
   }"

text \<open>
  The argument \<^verbatim>\<open>u\<close> is optional: without it, \<^verbatim>\<open>G\<close> and \<^verbatim>\<open>AhVec\<close> run the forward solve
  \<^verbatim>\<open>self.fields(m)\<close>, which rebuilds the mass matrices of the object. Each function returns
  its result with the state of the object after the call.
\<close>

definition fields_or ::
  "ProblemTDEM_b \<Rightarrow> vec \<Rightarrow> FieldsTDEM option \<Rightarrow> (FieldsTDEM \<times> ProblemTDEM_b) option" where
  "fields_or st m u =
     (case u of None \<Rightarrow> fields st m getRHS calcFields | Some u' \<Rightarrow> Some (u', st))"

definition G ::
  "ProblemTDEM_b \<Rightarrow> vec \<Rightarrow> vec \<Rightarrow> FieldsTDEM option \<Rightarrow> (FieldsTDEM \<times> ProblemTDEM_b) option" where
  "G st m v u = do {
     (u', st1) \<leftarrow> fields_or st m u;
     dm \<leftarrow> mmul (getEdgeMassDeriv (mesh st1)) (transformDeriv st1 m);
     c \<leftarrow> mvmul dm v;
     p \<leftarrow> G_loop st1 u' c (FieldsTDEM_new (mesh st1) 1 (times_size st1)) [0..<times_size st1];
     Some (p, st1)
   }"

text \<open>
  \<^verbatim>\<open>solveAh\<close>: the two closures read \<^verbatim>\<open>p\<close> and the object, and are handed to the driver.
\<close>

definition AhRHS :: "FieldsTDEM \<Rightarrow> ProblemTDEM_b \<Rightarrow> int \<Rightarrow> FieldsTDEM \<Rightarrow> mat option" where
  "AhRHS p st tInd u = do {
     Mf \<leftarrow> MfMui st;
     t1 \<leftarrow> mmul Mf (edgeCurl (mesh st));
     MsI \<leftarrow> MeSigmaI st;
     t2 \<leftarrow> mmul t1 MsI;
     pe \<leftarrow> get_e p tInd;
     t3 \<leftarrow> mmul t2 pe;
     pb \<leftarrow> get_b p tInd;
     t4 \<leftarrow> mmul Mf pb;
     rhs \<leftarrow> np_add t3 t4;
     if tInd = 0 then Some rhs
     else do {
       dt \<leftarrow> getDt st tInd;
       r \<leftarrow> py_recip dt;
       ub \<leftarrow> get_b u (tInd - 1);
       t5 \<leftarrow> mmul (smult r Mf) ub;
       np_add rhs t5
     }
   }"

definition AhCalcFields :: "FieldsTDEM \<Rightarrow> ProblemTDEM_b \<Rightarrow> mat \<Rightarrow> int \<Rightarrow> (mat \<times> mat) option" where
  "AhCalcFields p st sol tInd = do {
     MsI \<leftarrow> MeSigmaI st;
     t1 \<leftarrow> mmul MsI (mat_transpose (edgeCurl (mesh st)));
     Mf \<leftarrow> MfMui st;
     t2 \<leftarrow> mmul t1 Mf;
     t3 \<leftarrow> mmul t2 sol;
     pe \<leftarrow> get_e p tInd;
     t4 \<leftarrow> mmul MsI pe;
     e \<leftarrow> np_sub t3 t4;
     Some (sol, e)
   }"

definition solveAh ::
  "ProblemTDEM_b \<Rightarrow> vec \<Rightarrow> FieldsTDEM \<Rightarrow> (FieldsTDEM \<times> ProblemTDEM_b) option" where
  "solveAh st m p = fields st m (AhRHS p) (AhCalcFields p)"

text \<open>\<^verbatim>\<open>AhVec\<close>: the step of index 0 first, then the loop over \<^verbatim>\<open>range(1, self.times.size)\<close>.\<close>

definition AhVec_e :: "ProblemTDEM_b \<Rightarrow> FieldsTDEM \<Rightarrow> int \<Rightarrow> mat option" where
  "AhVec_e st u i = do {
     Mf \<leftarrow> MfMui st;
     t1 \<leftarrow> mmul (mat_transpose (edgeCurl (mesh st))) Mf;
     ub \<leftarrow> get_b u i;
     t2 \<leftarrow> mmul t1 ub;
     Ms \<leftarrow> MeSigma st;
     ue \<leftarrow> get_e u i;
     t3 \<leftarrow> mmul Ms ue;
     np_sub t2 t3
   }"

definition AhVec_b0 :: "ProblemTDEM_b \<Rightarrow> FieldsTDEM \<Rightarrow> mat option" where
  "AhVec_b0 st u = do {
     dt \<leftarrow> getDt st 0;
     r \<leftarrow> py_recip dt;
     ub \<leftarrow> get_b u 0;
     ue \<leftarrow> get_e u 0;
     t1 \<leftarrow> mmul (edgeCurl (mesh st)) ue;
     np_add (smult r ub) t1
   }"

definition AhVec_b :: "ProblemTDEM_b \<Rightarrow> FieldsTDEM \<Rightarrow> int \<Rightarrow> mat option" where
  "AhVec_b st u i = do {
     dt \<leftarrow> getDt st i;
     r \<leftarrow> py_recip dt;
     ub \<leftarrow> get_b u i;
     ue \<leftarrow> get_e u i;
     t1 \<leftarrow> mmul (edgeCurl (mesh st)) ue;
     t2 \<leftarrow> np_add (smult r ub) t1;
     ubp \<leftarrow> get_b u (i - 1);
     np_sub t2 (smult r ubp)
   }"

fun AhVec_loop :: "ProblemTDEM_b \<Rightarrow> FieldsTDEM \<Rightarrow> FieldsTDEM \<Rightarrow> nat list \<Rightarrow> FieldsTDEM option" where
  "AhVec_loop st u f [] = Some f"
| "AhVec_loop st u f (i # is) = do {
     b \<leftarrow> AhVec_b st u (int i);
     e \<leftarrow> AhVec_e st u (int i);
     f1 \<leftarrow> set_b f b (int i);
     f2 \<leftarrow> set_e f1 e (int i);
     AhVec_loop st u f2 is
   }"

definition AhVec ::
  "ProblemTDEM_b \<Rightarrow> vec \<Rightarrow> FieldsTDEM option \<Rightarrow> (FieldsTDEM \<times> ProblemTDEM_b) option" where
  "AhVec st m u = do {
     (u', st0) \<leftarrow> fields_or st m u;
     let st1 = makeMassMatrices st0 m;
     b \<leftarrow> AhVec_b0 st1 u';
     e \<leftarrow> AhVec_e st1 u' 0;
     f1 \<leftarrow> set_b (FieldsTDEM_new (mesh st1) 1 (times_size st1)) b 0;
     f2 \<leftarrow> set_e f1 e 0;
     f \<leftarrow> AhVec_loop st1 u' f2 [1..<times_size st1];
     Some (f, st1)
   }"

section \<open>The quantities of the specification\<close>

text \<open>
  The system matrix as the specification writes it,
  \<open>MfMui \<cdot> curl \<cdot> MeSigmaI \<cdot> curl\<^sup>T \<cdot> MfMui + (1/dt) \<cdot> MfMui\<close>, as a product of matrices
  nested from the right.
\<close>

definition systemMatrix :: "mat \<Rightarrow> mat \<Rightarrow> mat \<Rightarrow> real \<Rightarrow> mat" where
  "systemMatrix Mf C MsI dt =
     mat_add (mat_mult Mf (mat_mult C (mat_mult MsI (mat_mult (mat_transpose C) Mf))))
       (smult (1 / dt) Mf)"

text \<open>
  The right-hand side and the field rule of the adjoint solve as the specification writes
  them: the forcing \<open>MfMui \<cdot> curl \<cdot> MeSigmaI \<cdot> p.e + MfMui \<cdot> p.b\<close>, to which
  \<open>(1/dt) \<cdot> MfMui \<cdot> b[tInd-1]\<close> is added for \<open>tInd > 0\<close>, and
  \<open>e = MeSigmaI \<cdot> curl\<^sup>T \<cdot> MfMui \<cdot> b - MeSigmaI \<cdot> p.e\<close>.
\<close>

definition Ah_forcing :: "mat \<Rightarrow> mat \<Rightarrow> mat \<Rightarrow> mat \<Rightarrow> mat \<Rightarrow> mat" where
  "Ah_forcing Mf C MsI pe pb =
     mat_add (mat_mult Mf (mat_mult C (mat_mult MsI pe))) (mat_mult Mf pb)"

definition Ah_rhs :: "mat \<Rightarrow> mat \<Rightarrow> mat \<Rightarrow> mat \<Rightarrow> mat \<Rightarrow> real \<Rightarrow> int \<Rightarrow> mat \<Rightarrow> mat" where
  "Ah_rhs Mf C MsI pe pb dt tInd bprev =
     (if tInd > 0 then mat_add (Ah_forcing Mf C MsI pe pb) (smult (1 / dt) (mat_mult Mf bprev))
      else Ah_forcing Mf C MsI pe pb)"

definition Ah_e :: "mat \<Rightarrow> mat \<Rightarrow> mat \<Rightarrow> mat \<Rightarrow> mat \<Rightarrow> mat" where
  "Ah_e Mf C MsI b pe =
     mat_sub (mat_mult MsI (mat_mult (mat_transpose C) (mat_mult Mf b))) (mat_mult MsI pe)"

text \<open>
  The residual of \<^verbatim>\<open>AhVec\<close> as the specification writes it:
  \<open>b[i] = (1/dt) \<cdot> u.b[i] + curl \<cdot> u.e[i] - (1/dt) \<cdot> u.b[i-1]\<close>, without the last term at
  \<open>i = 0\<close>, and \<open>e[i] = curl\<^sup>T \<cdot> MfMui \<cdot> u.b[i] - MeSigma \<cdot> u.e[i]\<close>.
\<close>

definition AhVec_b_spec :: "mat \<Rightarrow> real \<Rightarrow> nat \<Rightarrow> mat \<Rightarrow> mat \<Rightarrow> mat \<Rightarrow> mat" where
  "AhVec_b_spec C dt i ub ue ubprev =
     (if i = 0 then mat_add (smult (1 / dt) ub) (mat_mult C ue)
      else mat_sub (mat_add (smult (1 / dt) ub) (mat_mult C ue)) (smult (1 / dt) ubprev))"

definition AhVec_e_spec :: "mat \<Rightarrow> mat \<Rightarrow> mat \<Rightarrow> mat \<Rightarrow> mat \<Rightarrow> mat" where
  "AhVec_e_spec C Mf Ms ub ue =
     mat_sub (mat_mult (mat_transpose C) (mat_mult Mf ub)) (mat_mult Ms ue)"

text \<open>
  The forcing of \<^verbatim>\<open>G\<close> as the specification writes it: \<open>e[i] = -u.e[i] \<odot> c\<close>, every column
  of \<open>u.e[i]\<close> multiplied entry by entry with the vector \<open>c\<close>.
\<close>

definition G_e_spec :: "mat \<Rightarrow> vec \<Rightarrow> mat" where
  "G_e_spec ue c = mk_mat (nrows ue) (ncols ue) (\<lambda>i j. - (ue ! i ! j) * c ! i)"

section \<open>A small instance\<close>

text \<open>
  A mesh with two faces and three edges, two time steps, a diagonal edge mass matrix and
  a direct solver for systems of two equations (Cramer's rule). The instance is used to
  evaluate the functions above on concrete inputs.
\<close>

definition solve2 :: "mat \<Rightarrow> mat \<Rightarrow> mat option" where
  "solve2 A y =
     (let d = A ! 0 ! 0 * A ! 1 ! 1 - A ! 0 ! 1 * A ! 1 ! 0 in
      if nrows A \<noteq> 2 \<or> ncols A \<noteq> 2 \<or> nrows y \<noteq> 2 \<or> d = 0 then None
      else Some (mk_mat 2 (ncols y) (\<lambda>i j.
        if i = 0 then (y ! 0 ! j * A ! 1 ! 1 - A ! 0 ! 1 * y ! 1 ! j) / d
        else (A ! 0 ! 0 * y ! 1 ! j - A ! 1 ! 0 * y ! 0 ! j) / d)))"

definition ex_mesh :: Mesh where
  "ex_mesh = \<lparr>edgeCurl = [[1, -1, 0], [0, 1, -1]], nF = 2, nE = 3,
     getEdgeMassDeriv = [[1, 0, 0], [1, 1, 0], [0, 0, 2]]\<rparr>"

definition diag3 :: "vec \<Rightarrow> mat" where
  "diag3 m = [[m ! 0, 0, 0], [0, m ! 1, 0], [0, 0, m ! 2]]"

definition ex_Mf :: mat where
  "ex_Mf = [[2, 1], [1, 3]]"

definition ex_problem :: ProblemTDEM_b where
  "ex_problem = \<lparr>mesh = ex_mesh, transformDeriv = (\<lambda>m. diag3 m),
     timeSteps = [1 / 2, 1 / 4], Solver = solve2,
     buildMeSigma = diag3, buildMeSigmaI = (\<lambda>m. diag3 (map inverse m)),
     buildMfMui = (\<lambda>m. ex_Mf),
     MeSigma = None, MeSigmaI = None, MfMui = None\<rparr>"

definition ex_m :: vec where
  "ex_m = [2, 4, 1]"

definition ex_built :: ProblemTDEM_b where
  "ex_built = makeMassMatrices ex_problem ex_m"

definition ex_u :: FieldsTDEM where
  "ex_u = \<lparr>fmesh = ex_mesh, nTx = 1, nTimes = 2, b0 = None,
     b_hist = [Some [[1], [2]], Some [[3], [-1]]],
     e_hist = [Some [[1], [0], [2]], Some [[-1], [1], [1 / 2]]]\<rparr>"

definition ex_ub :: "nat \<Rightarrow> mat" where
  "ex_ub i = (if i = 0 then [[1], [2]] else [[3], [-1]])"

definition ex_ue :: "nat \<Rightarrow> mat" where
  "ex_ue i = (if i = 0 then [[1], [0], [2]] else [[-1], [1], [1 / 2]])"

text \<open>The answers of the solver in the adjoint solve of the instance, with \<open>ex_u\<close> as forcing.\<close>

definition ex_yb :: "nat \<Rightarrow> mat" where
  "ex_yb t = (if t = 0 then [[6 / 13], [- (9 / 143)]] else [[71 / 91], [- (4178 / 15015)]])"

section \<open>Properties of the array operations\<close>

subsection \<open>Shapes and entries\<close>

lemma is_mat_nrows: "is_mat nr nc A \<Longrightarrow> nrows A = nr"
  by (simp add: is_mat_def nrows_def)

lemma is_mat_ncols: "is_mat nr nc A \<Longrightarrow> 0 < nr \<Longrightarrow> ncols A = nc"
  by (cases A) (simp_all add: is_mat_def ncols_def)

lemma is_mat_row: "is_mat nr nc A \<Longrightarrow> i < nr \<Longrightarrow> length (A ! i) = nc"
  by (simp add: is_mat_def)

lemma is_mat_mk_mat: "is_mat nr nc (mk_mat nr nc f)"
  by (auto simp: is_mat_def mk_mat_def)

lemma mk_mat_nth: "i < nr \<Longrightarrow> j < nc \<Longrightarrow> mk_mat nr nc f ! i ! j = f i j"
  by (simp add: mk_mat_def)

lemma mat_eqI:
  assumes "is_mat nr nc A" and "is_mat nr nc B"
    and "\<And>i j. i < nr \<Longrightarrow> j < nc \<Longrightarrow> A ! i ! j = B ! i ! j"
  shows "A = B"
proof (rule nth_equalityI)
  show "length A = length B"
    using assms(1,2) by (simp add: is_mat_def)
next
  fix i assume i: "i < length A"
  then have inr: "i < nr" using assms(1) by (simp add: is_mat_def)
  show "A ! i = B ! i"
  proof (rule nth_equalityI)
    show "length (A ! i) = length (B ! i)"
      using is_mat_row [OF assms(1) inr] is_mat_row [OF assms(2) inr] by simp
  next
    fix j assume "j < length (A ! i)"
    then have "j < nc" using is_mat_row [OF assms(1) inr] by simp
    then show "A ! i ! j = B ! i ! j" using assms(3) inr by blast
  qed
qed

lemma mk_mat_cong:
  "(\<And>i j. i < nr \<Longrightarrow> j < nc \<Longrightarrow> f i j = g i j) \<Longrightarrow> mk_mat nr nc f = mk_mat nr nc g"
  by (simp add: mk_mat_def)

lemma is_mat_zero: "is_mat nr nc (zero_mat nr nc)"
  by (simp add: zero_mat_def is_mat_mk_mat)

lemma is_mat_id: "is_mat n n (id_mat n)"
  by (simp add: id_mat_def is_mat_mk_mat)

lemma is_mat_mult:
  "is_mat n k A \<Longrightarrow> is_mat k m B \<Longrightarrow> 0 < k \<Longrightarrow> is_mat n m (mat_mult A B)"
  by (simp add: mat_mult_def is_mat_nrows is_mat_ncols is_mat_mk_mat)

lemma mat_mult_nth:
  "is_mat n k A \<Longrightarrow> is_mat k m B \<Longrightarrow> 0 < k \<Longrightarrow> i < n \<Longrightarrow> j < m \<Longrightarrow>
   mat_mult A B ! i ! j = (\<Sum>l<k. A ! i ! l * B ! l ! j)"
  by (simp add: mat_mult_def is_mat_nrows is_mat_ncols mk_mat_nth)

lemma is_mat_transpose:
  "is_mat n k A \<Longrightarrow> 0 < n \<Longrightarrow> is_mat k n (mat_transpose A)"
  by (simp add: mat_transpose_def is_mat_nrows is_mat_ncols is_mat_mk_mat)

lemma mat_transpose_nth:
  "is_mat n k A \<Longrightarrow> 0 < n \<Longrightarrow> i < k \<Longrightarrow> j < n \<Longrightarrow> mat_transpose A ! i ! j = A ! j ! i"
  by (simp add: mat_transpose_def is_mat_nrows is_mat_ncols mk_mat_nth)

lemma is_mat_smult: "is_mat n k A \<Longrightarrow> is_mat n k (smult s A)"
  by (auto simp: is_mat_def smult_def)

lemma smult_nth:
  "is_mat n k A \<Longrightarrow> i < n \<Longrightarrow> j < k \<Longrightarrow> smult s A ! i ! j = s * A ! i ! j"
  by (simp add: is_mat_def smult_def)

lemma is_mat_add: "is_mat n k A \<Longrightarrow> 0 < n \<Longrightarrow> is_mat n k (mat_add A B)"
  by (simp add: mat_add_def is_mat_nrows is_mat_ncols is_mat_mk_mat)

lemma mat_add_nth:
  "is_mat n k A \<Longrightarrow> i < n \<Longrightarrow> j < k \<Longrightarrow> mat_add A B ! i ! j = A ! i ! j + B ! i ! j"
  by (cases "n = 0") (simp_all add: mat_add_def is_mat_nrows is_mat_ncols mk_mat_nth)

lemma is_mat_sub: "is_mat n k A \<Longrightarrow> 0 < n \<Longrightarrow> is_mat n k (mat_sub A B)"
  by (simp add: mat_sub_def is_mat_nrows is_mat_ncols is_mat_mk_mat)

lemma mat_sub_nth:
  "is_mat n k A \<Longrightarrow> i < n \<Longrightarrow> j < k \<Longrightarrow> mat_sub A B ! i ! j = A ! i ! j - B ! i ! j"
  by (cases "n = 0") (simp_all add: mat_sub_def is_mat_nrows is_mat_ncols mk_mat_nth)

lemma zero_mat_nth: "i < n \<Longrightarrow> j < k \<Longrightarrow> zero_mat n k ! i ! j = 0"
  by (simp add: zero_mat_def mk_mat_nth)

lemma id_mat_nth: "i < n \<Longrightarrow> j < n \<Longrightarrow> id_mat n ! i ! j = (if i = j then 1 else 0)"
  by (simp add: id_mat_def mk_mat_nth)

subsection \<open>Matrix algebra\<close>

lemma mat_mult_assoc:
  assumes A: "is_mat n k A" and B: "is_mat k l B" and C: "is_mat l m C"
    and k: "0 < k" and l: "0 < l"
  shows "mat_mult (mat_mult A B) C = mat_mult A (mat_mult B C)"
proof (rule mat_eqI [of n m])
  have AB: "is_mat n l (mat_mult A B)" by (rule is_mat_mult [OF A B k])
  have BC: "is_mat k m (mat_mult B C)" by (rule is_mat_mult [OF B C l])
  show "is_mat n m (mat_mult (mat_mult A B) C)" by (rule is_mat_mult [OF AB C l])
  show "is_mat n m (mat_mult A (mat_mult B C))" by (rule is_mat_mult [OF A BC k])
  fix i j assume i: "i < n" and j: "j < m"
  have "mat_mult (mat_mult A B) C ! i ! j = (\<Sum>q<l. mat_mult A B ! i ! q * C ! q ! j)"
    by (rule mat_mult_nth [OF AB C l i j])
  also have "\<dots> = (\<Sum>q<l. (\<Sum>p<k. A ! i ! p * B ! p ! q) * C ! q ! j)"
    by (rule sum.cong) (simp_all add: mat_mult_nth [OF A B k i])
  also have "\<dots> = (\<Sum>q<l. \<Sum>p<k. A ! i ! p * (B ! p ! q * C ! q ! j))"
    by (simp add: sum_distrib_right mult.assoc)
  also have "\<dots> = (\<Sum>p<k. \<Sum>q<l. A ! i ! p * (B ! p ! q * C ! q ! j))"
    by (rule sum.swap)
  also have "\<dots> = (\<Sum>p<k. A ! i ! p * (\<Sum>q<l. B ! p ! q * C ! q ! j))"
    by (simp add: sum_distrib_left)
  also have "\<dots> = (\<Sum>p<k. A ! i ! p * mat_mult B C ! p ! j)"
    by (rule sum.cong) (simp_all add: mat_mult_nth [OF B C l _ j])
  also have "\<dots> = mat_mult A (mat_mult B C) ! i ! j"
    by (rule mat_mult_nth [OF A BC k i j, symmetric])
  finally show "mat_mult (mat_mult A B) C ! i ! j = mat_mult A (mat_mult B C) ! i ! j" .
qed

lemma mat_mult_add_right:
  assumes A: "is_mat n k A" and B: "is_mat k m B" and C: "is_mat k m C" and k: "0 < k"
  shows "mat_mult A (mat_add B C) = mat_add (mat_mult A B) (mat_mult A C)"
proof (cases "n = 0")
  case True
  then show ?thesis using A by (simp add: is_mat_def mat_mult_def mat_add_def mk_mat_def nrows_def ncols_def)
next
  case False
  then have n: "0 < n" by simp
  show ?thesis
  proof (rule mat_eqI [of n m])
    have BC: "is_mat k m (mat_add B C)" by (rule is_mat_add [OF B k])
    have AB: "is_mat n m (mat_mult A B)" by (rule is_mat_mult [OF A B k])
    show "is_mat n m (mat_mult A (mat_add B C))" by (rule is_mat_mult [OF A BC k])
    show "is_mat n m (mat_add (mat_mult A B) (mat_mult A C))" by (rule is_mat_add [OF AB n])
    fix i j assume i: "i < n" and j: "j < m"
    have "mat_mult A (mat_add B C) ! i ! j = (\<Sum>p<k. A ! i ! p * mat_add B C ! p ! j)"
      by (rule mat_mult_nth [OF A BC k i j])
    also have "\<dots> = (\<Sum>p<k. A ! i ! p * B ! p ! j + A ! i ! p * C ! p ! j)"
      by (rule sum.cong) (simp_all add: mat_add_nth [OF B _ j] distrib_left)
    also have "\<dots> = mat_mult A B ! i ! j + mat_mult A C ! i ! j"
      by (simp add: sum.distrib mat_mult_nth [OF A B k i j] mat_mult_nth [OF A C k i j])
    also have "\<dots> = mat_add (mat_mult A B) (mat_mult A C) ! i ! j"
      by (rule mat_add_nth [OF AB i j, symmetric])
    finally show "mat_mult A (mat_add B C) ! i ! j = mat_add (mat_mult A B) (mat_mult A C) ! i ! j" .
  qed
qed

lemma mat_mult_sub_right:
  assumes A: "is_mat n k A" and B: "is_mat k m B" and C: "is_mat k m C" and k: "0 < k"
  shows "mat_mult A (mat_sub B C) = mat_sub (mat_mult A B) (mat_mult A C)"
proof (cases "n = 0")
  case True
  then show ?thesis using A by (simp add: is_mat_def mat_mult_def mat_sub_def mk_mat_def nrows_def ncols_def)
next
  case False
  then have n: "0 < n" by simp
  show ?thesis
  proof (rule mat_eqI [of n m])
    have BC: "is_mat k m (mat_sub B C)" by (rule is_mat_sub [OF B k])
    have AB: "is_mat n m (mat_mult A B)" by (rule is_mat_mult [OF A B k])
    show "is_mat n m (mat_mult A (mat_sub B C))" by (rule is_mat_mult [OF A BC k])
    show "is_mat n m (mat_sub (mat_mult A B) (mat_mult A C))" by (rule is_mat_sub [OF AB n])
    fix i j assume i: "i < n" and j: "j < m"
    have "mat_mult A (mat_sub B C) ! i ! j = (\<Sum>p<k. A ! i ! p * mat_sub B C ! p ! j)"
      by (rule mat_mult_nth [OF A BC k i j])
    also have "\<dots> = (\<Sum>p<k. A ! i ! p * B ! p ! j - A ! i ! p * C ! p ! j)"
      by (rule sum.cong) (simp_all add: mat_sub_nth [OF B _ j] right_diff_distrib)
    also have "\<dots> = mat_mult A B ! i ! j - mat_mult A C ! i ! j"
      by (simp add: sum_subtractf mat_mult_nth [OF A B k i j] mat_mult_nth [OF A C k i j])
    also have "\<dots> = mat_sub (mat_mult A B) (mat_mult A C) ! i ! j"
      by (rule mat_sub_nth [OF AB i j, symmetric])
    finally show "mat_mult A (mat_sub B C) ! i ! j = mat_sub (mat_mult A B) (mat_mult A C) ! i ! j" .
  qed
qed

lemma mat_mult_smult_left:
  assumes A: "is_mat n k A" and B: "is_mat k m B" and k: "0 < k"
  shows "mat_mult (smult s A) B = smult s (mat_mult A B)"
proof (rule mat_eqI [of n m])
  have sA: "is_mat n k (smult s A)" by (rule is_mat_smult [OF A])
  have AB: "is_mat n m (mat_mult A B)" by (rule is_mat_mult [OF A B k])
  show "is_mat n m (mat_mult (smult s A) B)" by (rule is_mat_mult [OF sA B k])
  show "is_mat n m (smult s (mat_mult A B))" by (rule is_mat_smult [OF AB])
  fix i j assume i: "i < n" and j: "j < m"
  have "mat_mult (smult s A) B ! i ! j = (\<Sum>p<k. smult s A ! i ! p * B ! p ! j)"
    by (rule mat_mult_nth [OF sA B k i j])
  also have "\<dots> = (\<Sum>p<k. s * (A ! i ! p * B ! p ! j))"
    by (rule sum.cong) (simp_all add: smult_nth [OF A i] mult.assoc)
  also have "\<dots> = s * mat_mult A B ! i ! j"
    by (simp add: sum_distrib_left mat_mult_nth [OF A B k i j])
  also have "\<dots> = smult s (mat_mult A B) ! i ! j"
    by (rule smult_nth [OF AB i j, symmetric])
  finally show "mat_mult (smult s A) B ! i ! j = smult s (mat_mult A B) ! i ! j" .
qed

lemma mat_mult_smult_right:
  assumes A: "is_mat n k A" and B: "is_mat k m B" and k: "0 < k"
  shows "mat_mult A (smult s B) = smult s (mat_mult A B)"
proof (rule mat_eqI [of n m])
  have sB: "is_mat k m (smult s B)" by (rule is_mat_smult [OF B])
  have AB: "is_mat n m (mat_mult A B)" by (rule is_mat_mult [OF A B k])
  show "is_mat n m (mat_mult A (smult s B))" by (rule is_mat_mult [OF A sB k])
  show "is_mat n m (smult s (mat_mult A B))" by (rule is_mat_smult [OF AB])
  fix i j assume i: "i < n" and j: "j < m"
  have "mat_mult A (smult s B) ! i ! j = (\<Sum>p<k. A ! i ! p * smult s B ! p ! j)"
    by (rule mat_mult_nth [OF A sB k i j])
  also have "\<dots> = (\<Sum>p<k. s * (A ! i ! p * B ! p ! j))"
    by (rule sum.cong) (simp_all add: smult_nth [OF B _ j] mult.left_commute)
  also have "\<dots> = s * mat_mult A B ! i ! j"
    by (simp add: sum_distrib_left mat_mult_nth [OF A B k i j])
  also have "\<dots> = smult s (mat_mult A B) ! i ! j"
    by (rule smult_nth [OF AB i j, symmetric])
  finally show "mat_mult A (smult s B) ! i ! j = smult s (mat_mult A B) ! i ! j" .
qed

lemma mat_mult_id_left:
  assumes A: "is_mat n m A" and n: "0 < n"
  shows "mat_mult (id_mat n) A = A"
proof (rule mat_eqI [of n m])
  show "is_mat n m (mat_mult (id_mat n) A)" by (rule is_mat_mult [OF is_mat_id A n])
  show "is_mat n m A" by (rule A)
  fix i j assume i: "i < n" and j: "j < m"
  have "mat_mult (id_mat n) A ! i ! j = (\<Sum>p<n. id_mat n ! i ! p * A ! p ! j)"
    by (rule mat_mult_nth [OF is_mat_id A n i j])
  also have "\<dots> = (\<Sum>p<n. if p = i then A ! p ! j else 0)"
    by (rule sum.cong) (auto simp: id_mat_nth [OF i])
  also have "\<dots> = A ! i ! j"
    using i by (simp add: sum.delta)
  finally show "mat_mult (id_mat n) A ! i ! j = A ! i ! j" .
qed

lemma mat_transpose_mult:
  assumes A: "is_mat n k A" and B: "is_mat k m B" and n: "0 < n" and k: "0 < k"
  shows "mat_transpose (mat_mult A B) = mat_mult (mat_transpose B) (mat_transpose A)"
proof (rule mat_eqI [of m n])
  have AB: "is_mat n m (mat_mult A B)" by (rule is_mat_mult [OF A B k])
  have At: "is_mat k n (mat_transpose A)" by (rule is_mat_transpose [OF A n])
  have Bt: "is_mat m k (mat_transpose B)" by (rule is_mat_transpose [OF B k])
  show "is_mat m n (mat_transpose (mat_mult A B))" by (rule is_mat_transpose [OF AB n])
  show "is_mat m n (mat_mult (mat_transpose B) (mat_transpose A))" by (rule is_mat_mult [OF Bt At k])
  fix i j assume i: "i < m" and j: "j < n"
  have "mat_transpose (mat_mult A B) ! i ! j = mat_mult A B ! j ! i"
    by (rule mat_transpose_nth [OF AB n i j])
  also have "\<dots> = (\<Sum>p<k. A ! j ! p * B ! p ! i)"
    by (rule mat_mult_nth [OF A B k j i])
  also have "\<dots> = (\<Sum>p<k. mat_transpose B ! i ! p * mat_transpose A ! p ! j)"
    by (rule sum.cong) (simp_all add: mat_transpose_nth [OF A n _ j] mat_transpose_nth [OF B k i] mult.commute)
  also have "\<dots> = mat_mult (mat_transpose B) (mat_transpose A) ! i ! j"
    by (rule mat_mult_nth [OF Bt At k i j, symmetric])
  finally show "mat_transpose (mat_mult A B) ! i ! j = mat_mult (mat_transpose B) (mat_transpose A) ! i ! j" .
qed

lemma mat_transpose_transpose:
  assumes A: "is_mat n k A" and n: "0 < n" and k: "0 < k"
  shows "mat_transpose (mat_transpose A) = A"
proof (rule mat_eqI [of n k])
  have At: "is_mat k n (mat_transpose A)" by (rule is_mat_transpose [OF A n])
  show "is_mat n k (mat_transpose (mat_transpose A))" by (rule is_mat_transpose [OF At k])
  show "is_mat n k A" by (rule A)
  fix i j assume i: "i < n" and j: "j < k"
  show "mat_transpose (mat_transpose A) ! i ! j = A ! i ! j"
    by (simp add: mat_transpose_nth [OF At k i j] mat_transpose_nth [OF A n j i])
qed

lemma mat_transpose_add:
  assumes A: "is_mat n k A" and B: "is_mat n k B" and n: "0 < n" and k: "0 < k"
  shows "mat_transpose (mat_add A B) = mat_add (mat_transpose A) (mat_transpose B)"
proof (rule mat_eqI [of k n])
  have AB: "is_mat n k (mat_add A B)" by (rule is_mat_add [OF A n])
  have At: "is_mat k n (mat_transpose A)" by (rule is_mat_transpose [OF A n])
  show "is_mat k n (mat_transpose (mat_add A B))" by (rule is_mat_transpose [OF AB n])
  show "is_mat k n (mat_add (mat_transpose A) (mat_transpose B))" by (rule is_mat_add [OF At k])
  fix i j assume i: "i < k" and j: "j < n"
  show "mat_transpose (mat_add A B) ! i ! j = mat_add (mat_transpose A) (mat_transpose B) ! i ! j"
    by (simp add: mat_transpose_nth [OF AB n i j] mat_add_nth [OF A j i] mat_add_nth [OF At i j]
        mat_transpose_nth [OF A n i j] mat_transpose_nth [OF B n i j])
qed

lemma mat_transpose_smult:
  assumes A: "is_mat n k A" and n: "0 < n"
  shows "mat_transpose (smult s A) = smult s (mat_transpose A)"
proof (rule mat_eqI [of k n])
  have sA: "is_mat n k (smult s A)" by (rule is_mat_smult [OF A])
  have At: "is_mat k n (mat_transpose A)" by (rule is_mat_transpose [OF A n])
  show "is_mat k n (mat_transpose (smult s A))" by (rule is_mat_transpose [OF sA n])
  show "is_mat k n (smult s (mat_transpose A))" by (rule is_mat_smult [OF At])
  fix i j assume i: "i < k" and j: "j < n"
  show "mat_transpose (smult s A) ! i ! j = smult s (mat_transpose A) ! i ! j"
    by (simp add: mat_transpose_nth [OF sA n i j] smult_nth [OF A j i] smult_nth [OF At i j]
        mat_transpose_nth [OF A n i j])
qed

lemma mat_mult_zero_right:
  assumes A: "is_mat n k A" and k: "0 < k"
  shows "mat_mult A (zero_mat k m) = zero_mat n m"
proof (rule mat_eqI [of n m])
  show "is_mat n m (mat_mult A (zero_mat k m))" by (rule is_mat_mult [OF A is_mat_zero k])
  show "is_mat n m (zero_mat n m)" by (rule is_mat_zero)
  fix i j assume i: "i < n" and j: "j < m"
  have "mat_mult A (zero_mat k m) ! i ! j = (\<Sum>l<k. A ! i ! l * zero_mat k m ! l ! j)"
    by (rule mat_mult_nth [OF A is_mat_zero k i j])
  also have "\<dots> = (\<Sum>l<k. 0)"
    by (rule sum.cong) (simp_all add: zero_mat_nth j)
  finally show "mat_mult A (zero_mat k m) ! i ! j = zero_mat n m ! i ! j"
    by (simp add: zero_mat_nth i j)
qed

lemma smult_zero: "smult s (zero_mat n m) = zero_mat n m"
  by (simp add: smult_def zero_mat_def mk_mat_def)

lemma mat_mult_add_left:
  assumes A: "is_mat n k A" and B: "is_mat n k B" and X: "is_mat k m X" and n: "0 < n" and k: "0 < k"
  shows "mat_mult (mat_add A B) X = mat_add (mat_mult A X) (mat_mult B X)"
proof (rule mat_eqI [of n m])
  have AB: "is_mat n k (mat_add A B)" by (rule is_mat_add [OF A n])
  have AX: "is_mat n m (mat_mult A X)" by (rule is_mat_mult [OF A X k])
  show "is_mat n m (mat_mult (mat_add A B) X)" by (rule is_mat_mult [OF AB X k])
  show "is_mat n m (mat_add (mat_mult A X) (mat_mult B X))" by (rule is_mat_add [OF AX n])
  fix i j assume i: "i < n" and j: "j < m"
  have "mat_mult (mat_add A B) X ! i ! j = (\<Sum>p<k. mat_add A B ! i ! p * X ! p ! j)"
    by (rule mat_mult_nth [OF AB X k i j])
  also have "\<dots> = (\<Sum>p<k. A ! i ! p * X ! p ! j + B ! i ! p * X ! p ! j)"
    by (rule sum.cong) (simp_all add: mat_add_nth [OF A i] distrib_right)
  also have "\<dots> = mat_mult A X ! i ! j + mat_mult B X ! i ! j"
    by (simp add: sum.distrib mat_mult_nth [OF A X k i j] mat_mult_nth [OF B X k i j])
  also have "\<dots> = mat_add (mat_mult A X) (mat_mult B X) ! i ! j"
    by (rule mat_add_nth [OF AX i j, symmetric])
  finally show "mat_mult (mat_add A B) X ! i ! j = mat_add (mat_mult A X) (mat_mult B X) ! i ! j" .
qed

lemma cancel_first_step:
  assumes P: "is_mat n k P" and Q: "is_mat n k Q" and R: "is_mat n k R" and n: "0 < n"
  shows "mat_add (mat_sub P Q) (mat_add R Q) = mat_add P R"
proof (rule mat_eqI [of n k])
  have PQ: "is_mat n k (mat_sub P Q)" by (rule is_mat_sub [OF P n])
  show "is_mat n k (mat_add (mat_sub P Q) (mat_add R Q))" by (rule is_mat_add [OF PQ n])
  show "is_mat n k (mat_add P R)" by (rule is_mat_add [OF P n])
  fix i j assume i: "i < n" and j: "j < k"
  show "mat_add (mat_sub P Q) (mat_add R Q) ! i ! j = mat_add P R ! i ! j"
    by (simp add: mat_add_nth [OF PQ i j] mat_sub_nth [OF P i j] mat_add_nth [OF R i j]
        mat_add_nth [OF P i j])
qed

lemma cancel_later_step:
  assumes P: "is_mat n k P" and Q: "is_mat n k Q" and R: "is_mat n k R" and S: "is_mat n k S"
    and n: "0 < n"
  shows "mat_add (mat_add (mat_sub P Q) (mat_sub (mat_add R Q) S)) S = mat_add P R"
proof (rule mat_eqI [of n k])
  have PQ: "is_mat n k (mat_sub P Q)" by (rule is_mat_sub [OF P n])
  have RQ: "is_mat n k (mat_add R Q)" by (rule is_mat_add [OF R n])
  have T: "is_mat n k (mat_add (mat_sub P Q) (mat_sub (mat_add R Q) S))"
    by (rule is_mat_add [OF PQ n])
  show "is_mat n k (mat_add (mat_add (mat_sub P Q) (mat_sub (mat_add R Q) S)) S)"
    by (rule is_mat_add [OF T n])
  show "is_mat n k (mat_add P R)" by (rule is_mat_add [OF P n])
  fix i j assume i: "i < n" and j: "j < k"
  show "mat_add (mat_add (mat_sub P Q) (mat_sub (mat_add R Q) S)) S ! i ! j = mat_add P R ! i ! j"
    by (simp add: mat_add_nth [OF T i j] mat_add_nth [OF PQ i j] mat_sub_nth [OF P i j]
        mat_sub_nth [OF RQ i j] mat_add_nth [OF R i j] mat_add_nth [OF P i j])
qed

lemma cancel_field:
  assumes P: "is_mat n k P" and U: "is_mat n k U" and n: "0 < n"
  shows "mat_sub P (mat_sub P U) = U"
proof (rule mat_eqI [of n k])
  show "is_mat n k (mat_sub P (mat_sub P U))" by (rule is_mat_sub [OF P n])
  show "is_mat n k U" by (rule U)
  fix i j assume i: "i < n" and j: "j < k"
  show "mat_sub P (mat_sub P U) ! i ! j = U ! i ! j"
    by (simp add: mat_sub_nth [OF P i j])
qed

lemma cancel_first_solve:
  assumes P: "is_mat n k P" and R: "is_mat n k R" and E: "is_mat n k E" and B: "is_mat n k B"
    and n: "0 < n" and eq: "mat_add P R = mat_add E B"
  shows "mat_add R (mat_sub P E) = B"
proof (rule mat_eqI [of n k])
  show "is_mat n k (mat_add R (mat_sub P E))" by (rule is_mat_add [OF R n])
  show "is_mat n k B" by (rule B)
  fix i j assume i: "i < n" and j: "j < k"
  have "mat_add P R ! i ! j = mat_add E B ! i ! j" by (simp add: eq)
  then have "P ! i ! j + R ! i ! j = E ! i ! j + B ! i ! j"
    by (simp add: mat_add_nth [OF P i j] mat_add_nth [OF E i j])
  then show "mat_add R (mat_sub P E) ! i ! j = B ! i ! j"
    by (simp add: mat_add_nth [OF R i j] mat_sub_nth [OF P i j])
qed

lemma cancel_later_solve:
  assumes P: "is_mat n k P" and R: "is_mat n k R" and E: "is_mat n k E" and B: "is_mat n k B"
    and S: "is_mat n k S" and n: "0 < n" and eq: "mat_add P R = mat_add (mat_add E B) S"
  shows "mat_sub (mat_add R (mat_sub P E)) S = B"
proof (rule mat_eqI [of n k])
  have T: "is_mat n k (mat_add R (mat_sub P E))" by (rule is_mat_add [OF R n])
  have EB: "is_mat n k (mat_add E B)" by (rule is_mat_add [OF E n])
  show "is_mat n k (mat_sub (mat_add R (mat_sub P E)) S)" by (rule is_mat_sub [OF T n])
  show "is_mat n k B" by (rule B)
  fix i j assume i: "i < n" and j: "j < k"
  have "mat_add P R ! i ! j = mat_add (mat_add E B) S ! i ! j" by (simp add: eq)
  then have "P ! i ! j + R ! i ! j = E ! i ! j + B ! i ! j + S ! i ! j"
    by (simp add: mat_add_nth [OF P i j] mat_add_nth [OF EB i j] mat_add_nth [OF E i j])
  then show "mat_sub (mat_add R (mat_sub P E)) S ! i ! j = B ! i ! j"
    by (simp add: mat_sub_nth [OF T i j] mat_add_nth [OF R i j] mat_sub_nth [OF P i j])
qed

lemma left_cancel:
  assumes MfI: "is_mat nf nf MfI" and Mf: "is_mat nf nf Mf" and nf: "0 < nf"
    and inv: "mat_mult MfI Mf = id_mat nf"
    and x: "is_mat nf k x" and y: "is_mat nf k y"
    and eq: "mat_mult Mf x = mat_mult Mf y"
  shows "x = y"
proof -
  have "x = mat_mult (mat_mult MfI Mf) x" by (simp add: inv mat_mult_id_left [OF x nf])
  also have "\<dots> = mat_mult MfI (mat_mult Mf x)" by (rule mat_mult_assoc [OF MfI Mf x nf nf])
  also have "\<dots> = mat_mult MfI (mat_mult Mf y)" by (simp add: eq)
  also have "\<dots> = mat_mult (mat_mult MfI Mf) y" by (rule mat_mult_assoc [OF MfI Mf y nf nf, symmetric])
  also have "\<dots> = y" by (simp add: inv mat_mult_id_left [OF y nf])
  finally show ?thesis .
qed

subsection \<open>The checked operators on matching shapes\<close>

lemma mmul_Some:
  "is_mat n k A \<Longrightarrow> is_mat k m B \<Longrightarrow> 0 < n \<Longrightarrow> mmul A B = Some (mat_mult A B)"
  by (simp add: mmul_def is_mat_nrows is_mat_ncols)

lemma sp_add_Some:
  "is_mat n k A \<Longrightarrow> is_mat n k B \<Longrightarrow> 0 < n \<Longrightarrow> sp_add A B = Some (mat_add A B)"
  by (simp add: sp_add_def is_mat_nrows is_mat_ncols)

lemma bget_nth: "is_mat n k A \<Longrightarrow> i < n \<Longrightarrow> j < k \<Longrightarrow> bget A i j = A ! i ! j"
  by (auto simp: bget_def is_mat_nrows is_mat_ncols)

lemma np_binop_Some:
  assumes A: "is_mat n k A" and B: "is_mat n k B" and n: "0 < n"
  shows "np_binop f A B = Some (mk_mat n k (\<lambda>i j. f (A ! i ! j) (B ! i ! j)))"
proof -
  have "mk_mat n k (\<lambda>i j. f (bget A i j) (bget B i j)) = mk_mat n k (\<lambda>i j. f (A ! i ! j) (B ! i ! j))"
    by (rule mk_mat_cong) (simp add: bget_nth [OF A] bget_nth [OF B])
  then show ?thesis
    using n by (simp add: np_binop_def bcompat_def bdim_def is_mat_nrows [OF A] is_mat_nrows [OF B]
        is_mat_ncols [OF A n] is_mat_ncols [OF B n])
qed

lemma np_add_Some:
  "is_mat n k A \<Longrightarrow> is_mat n k B \<Longrightarrow> 0 < n \<Longrightarrow> np_add A B = Some (mat_add A B)"
  by (simp add: np_add_def np_binop_Some mat_add_def is_mat_nrows is_mat_ncols)

lemma np_sub_Some:
  "is_mat n k A \<Longrightarrow> is_mat n k B \<Longrightarrow> 0 < n \<Longrightarrow> np_sub A B = Some (mat_sub A B)"
  by (simp add: np_sub_def np_binop_Some mat_sub_def is_mat_nrows is_mat_ncols)

lemma py_recip_Some: "d \<noteq> 0 \<Longrightarrow> py_recip d = Some (1 / d)"
  by (simp add: py_recip_def)

subsection \<open>Reading and writing a field history\<close>

lemma get_b_set_b:
  "set_b F v t = Some F' \<Longrightarrow> 0 \<le> t' \<Longrightarrow> get_b F' t' = (if t' = t then Some v else get_b F t')"
  by (auto simp: set_b_def get_b_def nth_list_update split: if_splits)

lemma get_e_set_b: "set_b F v t = Some F' \<Longrightarrow> get_e F' t' = get_e F t'"
  by (auto simp: set_b_def get_e_def split: if_splits)

lemma get_e_set_e:
  "set_e F v t = Some F' \<Longrightarrow> get_e F' t' = (if t' = t then Some v else get_e F t')"
  by (auto simp: set_e_def get_e_def nth_list_update split: if_splits)

lemma get_b_set_e: "set_e F v t = Some F' \<Longrightarrow> get_b F' t' = get_b F t'"
  by (auto simp: set_e_def get_b_def split: if_splits option.splits)

lemma set_b_frame:
  "set_b F v t = Some F' \<Longrightarrow>
   fmesh F' = fmesh F \<and> nTx F' = nTx F \<and> length (b_hist F') = length (b_hist F) \<and>
   length (e_hist F') = length (e_hist F) \<and> b0 F' = b0 F"
  by (auto simp: set_b_def split: if_splits)

lemma set_e_frame:
  "set_e F v t = Some F' \<Longrightarrow>
   fmesh F' = fmesh F \<and> nTx F' = nTx F \<and> length (b_hist F') = length (b_hist F) \<and>
   length (e_hist F') = length (e_hist F) \<and> b0 F' = b0 F"
  by (auto simp: set_e_def split: if_splits)

lemma set_b_Some:
  "0 \<le> t \<Longrightarrow> nat t < length (b_hist F) \<Longrightarrow> is_mat (nF (fmesh F)) (nTx F) v \<Longrightarrow>
   \<exists>F'. set_b F v t = Some F'"
  by (simp add: set_b_def)

lemma set_e_Some:
  "0 \<le> t \<Longrightarrow> nat t < length (e_hist F) \<Longrightarrow> is_mat (nE (fmesh F)) (nTx F) v \<Longrightarrow>
   \<exists>F'. set_e F v t = Some F'"
  by (simp add: set_e_def)

lemma set_b_shape: "set_b F v t = Some F' \<Longrightarrow> is_mat (nF (fmesh F)) (nTx F) v"
  by (auto simp: set_b_def split: if_splits)

lemma set_e_shape: "set_e F v t = Some F' \<Longrightarrow> is_mat (nE (fmesh F)) (nTx F) v"
  by (auto simp: set_e_def split: if_splits)

subsection \<open>The state after building the mass matrices, and a fresh history\<close>

lemma makeMassMatrices_simps:
  "mesh (makeMassMatrices st m) = mesh st"
  "timeSteps (makeMassMatrices st m) = timeSteps st"
  "Solver (makeMassMatrices st m) = Solver st"
  "transformDeriv (makeMassMatrices st m) = transformDeriv st"
  "MeSigma (makeMassMatrices st m) = Some (buildMeSigma st m)"
  "MeSigmaI (makeMassMatrices st m) = Some (buildMeSigmaI st m)"
  "MfMui (makeMassMatrices st m) = Some (buildMfMui st m)"
  "getDt (makeMassMatrices st m) t = getDt st t"
  "times_size (makeMassMatrices st m) = times_size st"
  "makeMassMatrices (makeMassMatrices st m) m = makeMassMatrices st m"
  by (simp_all add: makeMassMatrices_def getDt_def times_size_def)

lemma FieldsTDEM_new_simps:
  "fmesh (FieldsTDEM_new msh k n) = msh"
  "nTx (FieldsTDEM_new msh k n) = k"
  "length (b_hist (FieldsTDEM_new msh k n)) = n"
  "length (e_hist (FieldsTDEM_new msh k n)) = n"
  "b0 (FieldsTDEM_new msh k n) = None"
  by (simp_all add: FieldsTDEM_new_def)

lemma getDt_Some: "i < length (timeSteps st) \<Longrightarrow> getDt st (int i) = Some (timeSteps st ! i)"
  by (simp add: getDt_def)

lemma makeMassMatrices_builders:
  "buildMfMui (makeMassMatrices st m) = buildMfMui st"
  "buildMeSigma (makeMassMatrices st m) = buildMeSigma st"
  "buildMeSigmaI (makeMassMatrices st m) = buildMeSigmaI st"
  by (simp_all add: makeMassMatrices_def)

subsection \<open>The small instance\<close>

lemma ex_u_entries:
  "\<forall>i < length (timeSteps ex_problem). get_b ex_u (int i) = Some (ex_ub i) \<and> is_mat 2 1 (ex_ub i) \<and>
     get_e ex_u (int i) = Some (ex_ue i) \<and> is_mat 3 1 (ex_ue i)"
proof (intro allI impI)
  fix i assume "i < length (timeSteps ex_problem)"
  then have "i = 0 \<or> i = 1" by (auto simp: ex_problem_def)
  then show "get_b ex_u (int i) = Some (ex_ub i) \<and> is_mat 2 1 (ex_ub i) \<and>
     get_e ex_u (int i) = Some (ex_ue i) \<and> is_mat 3 1 (ex_ue i)"
  proof
    assume "i = 0" then show ?thesis by (simp add: ex_u_def ex_ub_def ex_ue_def get_b_def get_e_def is_mat_def)
  next
    assume "i = 1" then show ?thesis by (simp add: ex_u_def ex_ub_def ex_ue_def get_b_def get_e_def is_mat_def)
  qed
qed

lemma ex_dts: "\<forall>i < length (timeSteps ex_problem). timeSteps ex_problem ! i \<noteq> 0"
  by (simp add: ex_problem_def less_Suc_eq)

lemma ex_u_e_entries:
  "\<forall>i < length (timeSteps ex_problem). get_e ex_u (int i) = Some (ex_ue i) \<and> is_mat 3 1 (ex_ue i)"
  using ex_u_entries by blast

lemma is_mat_2_1: "is_mat 2 1 x \<Longrightarrow> \<exists>p q. x = [[p], [q]]"
  by (auto simp: is_mat_def length_Suc_conv numeral_2_eq_2)

lemma mat_mult_2_2_1:
  "mat_mult [[a, b], [c, d]] [[p], [q]] = [[a * p + b * q], [c * p + d * q]]"
  by (simp add: mat_mult_def mk_mat_def nrows_def ncols_def numeral_2_eq_2)

lemma solve2_exact:
  assumes d: "a * d - b * c \<noteq> 0" and x: "is_mat 2 1 x"
  shows "solve2 [[a, b], [c, d]] (mat_mult [[a, b], [c, d]] x) = Some x"
proof -
  obtain p q where xpq: "x = [[p], [q]]" using is_mat_2_1 [OF x] by blast
  have e1: "((a * p + b * q) * d - b * (c * p + d * q)) / (a * d - b * c) = p"
    using d by (simp add: field_simps)
  have e2: "(a * (c * p + d * q) - c * (a * p + b * q)) / (a * d - b * c) = q"
    using d by (simp add: field_simps)
  have m: "[0..<2] = [0, Suc 0]" by (simp add: upt_rec)
  show ?thesis
    using d
    by (simp add: xpq mat_mult_2_2_1 solve2_def Let_def nrows_def ncols_def mk_mat_def m e1 e2)
qed

lemma ex_A: "systemMatrix (buildMfMui ex_problem ex_m) (edgeCurl (mesh ex_problem))
         (buildMeSigmaI ex_problem ex_m) (timeSteps ex_problem ! 0) = [[29 / 4, 11 / 2], [11 / 2, 33 / 2]]"
   "systemMatrix (buildMfMui ex_problem ex_m) (edgeCurl (mesh ex_problem))
         (buildMeSigmaI ex_problem ex_m) (timeSteps ex_problem ! 1) = [[45 / 4, 15 / 2], [15 / 2, 45 / 2]]"
  by code_simp+

lemma ex_solver_exact:
  "\<forall>t < length (timeSteps ex_problem). \<forall>x. is_mat 2 1 x \<longrightarrow>
        Solver ex_problem (systemMatrix (buildMfMui ex_problem ex_m) (edgeCurl (mesh ex_problem))
            (buildMeSigmaI ex_problem ex_m) (timeSteps ex_problem ! t))
          (mat_mult (systemMatrix (buildMfMui ex_problem ex_m) (edgeCurl (mesh ex_problem))
             (buildMeSigmaI ex_problem ex_m) (timeSteps ex_problem ! t)) x) = Some x"
proof (intro allI impI)
  fix t x assume t: "t < length (timeSteps ex_problem)" and x: "is_mat 2 1 x"
  have s: "Solver ex_problem = solve2" by (simp add: ex_problem_def)
  from t have "t = 0 \<or> t = 1" by (auto simp: ex_problem_def)
  then show "Solver ex_problem (systemMatrix (buildMfMui ex_problem ex_m) (edgeCurl (mesh ex_problem))
            (buildMeSigmaI ex_problem ex_m) (timeSteps ex_problem ! t))
          (mat_mult (systemMatrix (buildMfMui ex_problem ex_m) (edgeCurl (mesh ex_problem))
             (buildMeSigmaI ex_problem ex_m) (timeSteps ex_problem ! t)) x) = Some x"
  proof
    assume "t = 0"
    then show ?thesis unfolding s using ex_A(1) solve2_exact [OF _ x, of "29 / 4" "33 / 2" "11 / 2" "11 / 2"] by simp
  next
    assume "t = 1"
    then show ?thesis unfolding s using ex_A(2) solve2_exact [OF _ x, of "45 / 4" "45 / 2" "15 / 2" "15 / 2"] by simp
  qed
qed

lemma ex_p_entries:
  "\<forall>t < length (timeSteps ex_problem). get_e ex_u (int t) = Some (ex_ue t) \<and> is_mat 3 1 (ex_ue t) \<and>
     get_b ex_u (int t) = Some (ex_ub t) \<and> is_mat 2 1 (ex_ub t)"
  using ex_u_entries by blast

lemma ex_solver_answers:
  "\<forall>t < length (timeSteps ex_problem).
     Solver ex_problem (systemMatrix (buildMfMui ex_problem ex_m) (edgeCurl (mesh ex_problem))
         (buildMeSigmaI ex_problem ex_m) (timeSteps ex_problem ! t))
       (Ah_rhs (buildMfMui ex_problem ex_m) (edgeCurl (mesh ex_problem)) (buildMeSigmaI ex_problem ex_m)
          (ex_ue t) (ex_ub t) (timeSteps ex_problem ! t) (int t) (ex_yb (t - 1))) = Some (ex_yb t) \<and>
     is_mat 2 1 (ex_yb t)"
proof (intro allI impI)
  fix t assume "t < length (timeSteps ex_problem)"
  then have "t = 0 \<or> t = 1" by (auto simp: ex_problem_def)
  then show "Solver ex_problem (systemMatrix (buildMfMui ex_problem ex_m) (edgeCurl (mesh ex_problem))
         (buildMeSigmaI ex_problem ex_m) (timeSteps ex_problem ! t))
       (Ah_rhs (buildMfMui ex_problem ex_m) (edgeCurl (mesh ex_problem)) (buildMeSigmaI ex_problem ex_m)
          (ex_ue t) (ex_ub t) (timeSteps ex_problem ! t) (int t) (ex_yb (t - 1))) = Some (ex_yb t) \<and>
     is_mat 2 1 (ex_yb t)"
  proof
    assume t: "t = 0" show ?thesis unfolding t by code_simp
  next
    assume t: "t = 1" show ?thesis unfolding t by code_simp
  qed
qed

section \<open>The system matrix\<close>

text \<open>The value of \<^verbatim>\<open>getA\<close>, in the order in which the source multiplies.\<close>
lemma getA_value:
  assumes C: "is_mat nf ne (edgeCurl (mesh st))" and nf: "0 < nf" and ne: "0 < ne"
    and Mf: "MfMui st = Some Mf" "is_mat nf nf Mf"
    and MsI: "MeSigmaI st = Some MsI" "is_mat ne ne MsI"
    and dt: "getDt st tInd = Some dt" "dt \<noteq> 0"
  shows "getA st tInd =
    Some (mat_add
      (mat_mult (mat_mult (mat_mult (mat_mult Mf (edgeCurl (mesh st))) MsI)
         (mat_transpose (edgeCurl (mesh st)))) Mf)
      (smult (1 / dt) Mf))"
proof -
  let ?C = "edgeCurl (mesh st)"
  have t1: "is_mat nf ne (mat_mult Mf ?C)" by (rule is_mat_mult [OF Mf(2) C nf])
  have t2: "is_mat nf ne (mat_mult (mat_mult Mf ?C) MsI)" by (rule is_mat_mult [OF t1 MsI(2) ne])
  have Ct: "is_mat ne nf (mat_transpose ?C)" by (rule is_mat_transpose [OF C nf])
  have t3: "is_mat nf nf (mat_mult (mat_mult (mat_mult Mf ?C) MsI) (mat_transpose ?C))"
    by (rule is_mat_mult [OF t2 Ct ne])
  have t4: "is_mat nf nf (mat_mult (mat_mult (mat_mult (mat_mult Mf ?C) MsI) (mat_transpose ?C)) Mf)"
    by (rule is_mat_mult [OF t3 Mf(2) nf])
  show ?thesis
    unfolding getA_def
    by (simp add: dt Mf(1) MsI(1) py_recip_Some
        mmul_Some [OF Mf(2) C nf] mmul_Some [OF t1 MsI(2) nf] mmul_Some [OF t2 Ct nf]
        mmul_Some [OF t3 Mf(2) nf] sp_add_Some [OF t4 is_mat_smult [OF Mf(2)] nf])
qed

lemma left_product_assoc:
  assumes C: "is_mat nf ne C" and nf: "0 < nf" and ne: "0 < ne"
    and Mf: "is_mat nf nf Mf" and MsI: "is_mat ne ne MsI"
  shows "mat_mult (mat_mult (mat_mult (mat_mult Mf C) MsI) (mat_transpose C)) Mf =
         mat_mult Mf (mat_mult C (mat_mult MsI (mat_mult (mat_transpose C) Mf)))"
proof -
  have Ct: "is_mat ne nf (mat_transpose C)" by (rule is_mat_transpose [OF C nf])
  have CtMf: "is_mat ne nf (mat_mult (mat_transpose C) Mf)" by (rule is_mat_mult [OF Ct Mf nf])
  have MfC: "is_mat nf ne (mat_mult Mf C)" by (rule is_mat_mult [OF Mf C nf])
  have MfCMsI: "is_mat nf ne (mat_mult (mat_mult Mf C) MsI)" by (rule is_mat_mult [OF MfC MsI ne])
  have M2: "is_mat ne nf (mat_mult MsI (mat_mult (mat_transpose C) Mf))"
    by (rule is_mat_mult [OF MsI CtMf ne])
  have "mat_mult (mat_mult (mat_mult (mat_mult Mf C) MsI) (mat_transpose C)) Mf =
        mat_mult (mat_mult (mat_mult Mf C) MsI) (mat_mult (mat_transpose C) Mf)"
    by (rule mat_mult_assoc [OF MfCMsI Ct Mf ne nf])
  also have "\<dots> = mat_mult (mat_mult Mf C) (mat_mult MsI (mat_mult (mat_transpose C) Mf))"
    by (rule mat_mult_assoc [OF MfC MsI CtMf ne ne])
  also have "\<dots> = mat_mult Mf (mat_mult C (mat_mult MsI (mat_mult (mat_transpose C) Mf)))"
    by (rule mat_mult_assoc [OF Mf C M2 nf ne])
  finally show ?thesis .
qed

lemma systemMatrix_symmetric:
  assumes C: "is_mat nf ne C" and nf: "0 < nf" and ne: "0 < ne"
    and Mf: "is_mat nf nf Mf" and MsI: "is_mat ne ne MsI"
    and sMf: "mat_transpose Mf = Mf" and sMsI: "mat_transpose MsI = MsI"
  shows "mat_transpose (systemMatrix Mf C MsI dt) = systemMatrix Mf C MsI dt"
proof -
  have Ct: "is_mat ne nf (mat_transpose C)" by (rule is_mat_transpose [OF C nf])
  have CtMf: "is_mat ne nf (mat_mult (mat_transpose C) Mf)" by (rule is_mat_mult [OF Ct Mf nf])
  have M2: "is_mat ne nf (mat_mult MsI (mat_mult (mat_transpose C) Mf))"
    by (rule is_mat_mult [OF MsI CtMf ne])
  have M3: "is_mat nf nf (mat_mult C (mat_mult MsI (mat_mult (mat_transpose C) Mf)))"
    by (rule is_mat_mult [OF C M2 ne])
  have M4: "is_mat nf nf (mat_mult Mf (mat_mult C (mat_mult MsI (mat_mult (mat_transpose C) Mf))))"
    by (rule is_mat_mult [OF Mf M3 nf])
  have MfC: "is_mat nf ne (mat_mult Mf C)" by (rule is_mat_mult [OF Mf C nf])
  have MfCMsI: "is_mat nf ne (mat_mult (mat_mult Mf C) MsI)" by (rule is_mat_mult [OF MfC MsI ne])
  have "mat_transpose (mat_mult Mf (mat_mult C (mat_mult MsI (mat_mult (mat_transpose C) Mf)))) =
        mat_mult (mat_transpose (mat_mult C (mat_mult MsI (mat_mult (mat_transpose C) Mf)))) Mf"
    by (simp add: mat_transpose_mult [OF Mf M3 nf nf] sMf)
  also have "mat_transpose (mat_mult C (mat_mult MsI (mat_mult (mat_transpose C) Mf))) =
        mat_mult (mat_transpose (mat_mult MsI (mat_mult (mat_transpose C) Mf))) (mat_transpose C)"
    by (rule mat_transpose_mult [OF C M2 nf ne])
  also have "mat_transpose (mat_mult MsI (mat_mult (mat_transpose C) Mf)) =
        mat_mult (mat_transpose (mat_mult (mat_transpose C) Mf)) MsI"
    by (simp add: mat_transpose_mult [OF MsI CtMf ne ne] sMsI)
  also have "mat_transpose (mat_mult (mat_transpose C) Mf) = mat_mult Mf C"
    by (simp add: mat_transpose_mult [OF Ct Mf ne nf] sMf mat_transpose_transpose [OF C nf ne])
  finally have prod: "mat_transpose (mat_mult Mf (mat_mult C (mat_mult MsI (mat_mult (mat_transpose C) Mf)))) =
     mat_mult Mf (mat_mult C (mat_mult MsI (mat_mult (mat_transpose C) Mf)))"
    by (simp add: left_product_assoc [OF C nf ne Mf MsI])
  show ?thesis
    unfolding systemMatrix_def
    by (simp add: mat_transpose_add [OF M4 is_mat_smult [OF Mf] nf nf] prod
        mat_transpose_smult [OF Mf nf] sMf)
qed

lemma getA_eq_systemMatrix:
  assumes "is_mat nf ne (edgeCurl (mesh st))" and "0 < nf" and "0 < ne"
    and "MfMui st = Some Mf" and "is_mat nf nf Mf"
    and "MeSigmaI st = Some MsI" and "is_mat ne ne MsI"
    and "getDt st tInd = Some dt" and "dt \<noteq> 0"
  shows "getA st tInd = Some (systemMatrix Mf (edgeCurl (mesh st)) MsI dt)"
  using getA_value [OF assms] left_product_assoc [OF assms(1,2,3,5,7)]
  by (simp add: systemMatrix_def)

text \<open>
  Claim C2. For a time index \<open>tInd\<close> with step size \<open>dt = getDt(tInd)\<close>, \<^verbatim>\<open>getA(tInd)\<close>
  returns the matrix \<open>MfMui \<cdot> edgeCurl \<cdot> MeSigmaI \<cdot> edgeCurl\<^sup>T \<cdot> MfMui + (1/dt) \<cdot> MfMui\<close>,
  built from the mass matrices stored in the object and the curl of the mesh. The shapes
  are those of a mesh with \<open>nf\<close> faces and \<open>ne\<close> edges, and the step size is not zero.
\<close>

theorem getA_systemMatrix:
  assumes "is_mat nf ne (edgeCurl (mesh st))" and "0 < nf" and "0 < ne"
    and "MfMui st = Some Mf" and "is_mat nf nf Mf"
    and "MeSigmaI st = Some MsI" and "is_mat ne ne MsI"
    and "getDt st tInd = Some dt" and "dt \<noteq> 0"
  shows "getA st tInd = Some (systemMatrix Mf (edgeCurl (mesh st)) MsI dt)"
  using getA_value [OF assms] left_product_assoc [OF assms(1,2,3,5,7)]
  by (simp add: systemMatrix_def)

theorem getA_systemMatrix_witness:
  "is_mat 2 3 (edgeCurl (mesh ex_built)) \<and> MfMui ex_built = Some ex_Mf \<and> is_mat 2 2 ex_Mf \<and>
   MeSigmaI ex_built = Some (diag3 (map inverse ex_m)) \<and> is_mat 3 3 (diag3 (map inverse ex_m)) \<and>
   getDt ex_built 1 = Some (1 / 4) \<and>
   getA ex_built 1 = Some (systemMatrix ex_Mf (edgeCurl (mesh ex_built)) (diag3 (map inverse ex_m)) (1 / 4)) \<and>
   getA ex_built 1 = Some [[45 / 4, 15 / 2], [15 / 2, 45 / 2]]"
proof -
  have h1: "is_mat 2 3 (edgeCurl (mesh ex_built))" by code_simp
  have h2: "MfMui ex_built = Some ex_Mf" by code_simp
  have h3: "is_mat 2 2 ex_Mf" by code_simp
  have h4: "MeSigmaI ex_built = Some (diag3 (map inverse ex_m))" by code_simp
  have h5: "is_mat 3 3 (diag3 (map inverse ex_m))" by code_simp
  have h6: "getDt ex_built 1 = Some (1 / 4)" by code_simp
  have h7: "getA ex_built 1 = Some [[45 / 4, 15 / 2], [15 / 2, 45 / 2]]" by code_simp
  have "getA ex_built 1 =
      Some (systemMatrix ex_Mf (edgeCurl (mesh ex_built)) (diag3 (map inverse ex_m)) (1 / 4))"
    by (rule getA_systemMatrix [OF h1 _ _ h2 h3 h4 h5 h6]) simp_all
  with h1 h2 h3 h4 h5 h6 h7 show ?thesis by simp
qed

text \<open>
  Claim C8. For every valid time index the matrix returned by \<^verbatim>\<open>getA\<close> is symmetric, equal
  to its own transpose, when the mass matrices \<^verbatim>\<open>MfMui\<close> and \<^verbatim>\<open>MeSigmaI\<close> are symmetric.
\<close>

theorem getA_symmetric:
  assumes "is_mat nf ne (edgeCurl (mesh st))" and "0 < nf" and "0 < ne"
    and "MfMui st = Some Mf" and "is_mat nf nf Mf"
    and "MeSigmaI st = Some MsI" and "is_mat ne ne MsI"
    and "getDt st tInd = Some dt" and "dt \<noteq> 0"
    and "mat_transpose Mf = Mf" and "mat_transpose MsI = MsI"
  shows "\<exists>A. getA st tInd = Some A \<and> mat_transpose A = A"
  using getA_value [OF assms(1-9)] left_product_assoc [OF assms(1,2,3,5,7)]
    systemMatrix_symmetric [OF assms(1,2,3,5,7,10,11), of dt]
  by (simp add: systemMatrix_def)

theorem getA_symmetric_witness:
  "is_mat 2 3 (edgeCurl (mesh ex_built)) \<and> MfMui ex_built = Some ex_Mf \<and> is_mat 2 2 ex_Mf \<and>
   MeSigmaI ex_built = Some (diag3 (map inverse ex_m)) \<and> is_mat 3 3 (diag3 (map inverse ex_m)) \<and>
   getDt ex_built 0 = Some (1 / 2) \<and> mat_transpose ex_Mf = ex_Mf \<and>
   mat_transpose (diag3 (map inverse ex_m)) = diag3 (map inverse ex_m) \<and>
   (\<exists>A. getA ex_built 0 = Some A \<and> mat_transpose A = A)"
proof -
  have h1: "is_mat 2 3 (edgeCurl (mesh ex_built))" by code_simp
  have h2: "MfMui ex_built = Some ex_Mf" by code_simp
  have h3: "is_mat 2 2 ex_Mf" by code_simp
  have h4: "MeSigmaI ex_built = Some (diag3 (map inverse ex_m))" by code_simp
  have h5: "is_mat 3 3 (diag3 (map inverse ex_m))" by code_simp
  have h6: "getDt ex_built 0 = Some (1 / 2)" by code_simp
  have h7: "mat_transpose ex_Mf = ex_Mf" by code_simp
  have h8: "mat_transpose (diag3 (map inverse ex_m)) = diag3 (map inverse ex_m)" by code_simp
  have "\<exists>A. getA ex_built 0 = Some A \<and> mat_transpose A = A"
    by (rule getA_symmetric [OF h1 _ _ h2 h3 h4 h5 h6 _ h7 h8]) simp_all
  with h1 h2 h3 h4 h5 h6 h7 h8 show ?thesis by simp
qed

section \<open>The right-hand side of the forward solve\<close>

text \<open>
  \<^verbatim>\<open>getRHS\<close> multiplies \<^verbatim>\<open>(1/dt)*MfMui\<close> with the field \<^verbatim>\<open>b\<close> that the history returns for the
  index \<open>tInd - 1\<close>.
\<close>

lemma getRHS_value:
  assumes Mf: "MfMui st = Some Mf" "is_mat nf nf Mf" and nf: "0 < nf"
    and dt: "getDt st tInd = Some dt" "dt \<noteq> 0"
    and bp: "get_b F (tInd - 1) = Some bp" "is_mat nf k bp"
  shows "getRHS st tInd F = Some (smult (1 / dt) (mat_mult Mf bp))"
  unfolding getRHS_def
  by (simp add: dt Mf(1) bp(1) py_recip_Some mmul_Some [OF is_mat_smult [OF Mf(2)] bp(2) nf]
      mat_mult_smult_left [OF Mf(2) bp(2) nf])

text \<open>
  Claim C6. \<^verbatim>\<open>getRHS(tInd, history)\<close> returns \<open>(1/dt) \<cdot> MfMui \<cdot> history.b[tInd-1]\<close>. At
  \<open>tInd = 0\<close> the index passed to the history is \<open>-1\<close>, which the history resolves to its
  initial condition: the call does not fail, the previous \<^verbatim>\<open>b\<close> is zero and so is the
  right-hand side, unless an initial condition was seeded, which is then used.
\<close>

theorem getRHS_previous_b:
  assumes "MfMui st = Some Mf" and "is_mat nf nf Mf" and "0 < nf"
    and "getDt st tInd = Some dt" and "dt \<noteq> 0" and "nF (fmesh F) = nf"
  shows "(\<forall>bp. get_b F (tInd - 1) = Some bp \<and> is_mat nf (nTx F) bp \<longrightarrow>
            getRHS st tInd F = Some (smult (1 / dt) (mat_mult Mf bp))) \<and>
         (tInd = 0 \<and> b0 F = None \<longrightarrow>
            get_b F (tInd - 1) = Some (zero_mat nf (nTx F)) \<and>
            getRHS st tInd F = Some (zero_mat nf (nTx F))) \<and>
         (\<forall>v. tInd = 0 \<and> b0 F = Some v \<and> is_mat nf (nTx F) v \<longrightarrow>
            getRHS st tInd F = Some (smult (1 / dt) (mat_mult Mf v)))"
proof (intro conjI allI impI)
  fix bp assume "get_b F (tInd - 1) = Some bp \<and> is_mat nf (nTx F) bp"
  then show "getRHS st tInd F = Some (smult (1 / dt) (mat_mult Mf bp))"
    using getRHS_value [OF assms(1-5)] by blast
next
  assume h: "tInd = 0 \<and> b0 F = None"
  then show z: "get_b F (tInd - 1) = Some (zero_mat nf (nTx F))"
    using assms(6) by (simp add: get_b_def)
  show "getRHS st tInd F = Some (zero_mat nf (nTx F))"
    using getRHS_value [OF assms(1-5) z is_mat_zero]
    by (simp add: mat_mult_zero_right [OF assms(2,3)] smult_zero)
next
  fix v assume h: "tInd = 0 \<and> b0 F = Some v \<and> is_mat nf (nTx F) v"
  then have "get_b F (tInd - 1) = Some v" by (simp add: get_b_def)
  then show "getRHS st tInd F = Some (smult (1 / dt) (mat_mult Mf v))"
    using getRHS_value [OF assms(1-5)] h by blast
qed

theorem getRHS_previous_b_witness:
  "MfMui ex_built = Some ex_Mf \<and> is_mat 2 2 ex_Mf \<and> nF (fmesh ex_u) = 2 \<and>
   getDt ex_built 1 = Some (1 / 4) \<and> getDt ex_built 0 = Some (1 / 2) \<and>
   get_b ex_u (1 - 1) = Some [[1], [2]] \<and> is_mat 2 (nTx ex_u) [[1], [2]] \<and>
   getRHS ex_built 1 ex_u = Some (smult (1 / (1 / 4)) (mat_mult ex_Mf [[1], [2]])) \<and>
   getRHS ex_built 1 ex_u = Some [[16], [28]] \<and>
   b0 ex_u = None \<and> get_b ex_u (0 - 1) = Some (zero_mat 2 (nTx ex_u)) \<and>
   getRHS ex_built 0 ex_u = Some (zero_mat 2 (nTx ex_u)) \<and>
   getRHS ex_built 0 ex_u = Some [[0], [0]] \<and>
   getRHS ex_built 0 (ex_u\<lparr>b0 := Some [[5], [7]]\<rparr>) = Some (smult (1 / (1 / 2)) (mat_mult ex_Mf [[5], [7]])) \<and>
   getRHS ex_built 0 (ex_u\<lparr>b0 := Some [[5], [7]]\<rparr>) = Some [[34], [52]]"
proof -
  have h1: "MfMui ex_built = Some ex_Mf" by code_simp
  have h2: "is_mat 2 2 ex_Mf" by code_simp
  have h3: "nF (fmesh ex_u) = 2" by code_simp
  have h3': "nF (fmesh (ex_u\<lparr>b0 := Some [[5], [7]]\<rparr>)) = 2" by code_simp
  have d1: "getDt ex_built 1 = Some (1 / 4)" by code_simp
  have d0: "getDt ex_built 0 = Some (1 / 2)" by code_simp
  have g1: "get_b ex_u (1 - 1) = Some [[1], [2]]" by code_simp
  have s1: "is_mat 2 (nTx ex_u) [[1], [2]]" by code_simp
  have n0: "b0 ex_u = None" by code_simp
  have s5: "b0 (ex_u\<lparr>b0 := Some [[5], [7]]\<rparr>) = Some [[5], [7]] \<and>
            is_mat 2 (nTx (ex_u\<lparr>b0 := Some [[5], [7]]\<rparr>)) [[5], [7]]" by code_simp
  have v1: "getRHS ex_built 1 ex_u = Some [[16], [28]]" by code_simp
  have v0: "getRHS ex_built 0 ex_u = Some [[0], [0]]" by code_simp
  have v5: "getRHS ex_built 0 (ex_u\<lparr>b0 := Some [[5], [7]]\<rparr>) = Some [[34], [52]]" by code_simp
  have a: "getRHS ex_built 1 ex_u = Some (smult (1 / (1 / 4)) (mat_mult ex_Mf [[1], [2]]))"
    using getRHS_previous_b [OF h1 h2 _ d1 _ h3] g1 s1 by simp
  have b: "get_b ex_u (0 - 1) = Some (zero_mat 2 (nTx ex_u)) \<and>
           getRHS ex_built 0 ex_u = Some (zero_mat 2 (nTx ex_u))"
    using getRHS_previous_b [OF h1 h2 _ d0 _ h3] n0 by simp
  have c: "getRHS ex_built 0 (ex_u\<lparr>b0 := Some [[5], [7]]\<rparr>) =
           Some (smult (1 / (1 / 2)) (mat_mult ex_Mf [[5], [7]]))"
    using getRHS_previous_b [OF h1 h2 _ d0 _ h3'] s5 by simp
  from h1 h2 h3 d1 d0 g1 s1 n0 v1 v0 v5 a b c show ?thesis by simp
qed

section \<open>Mass matrices that were not built\<close>

text \<open>
  Claim C9 says that \<^verbatim>\<open>getA\<close> and \<^verbatim>\<open>getRHS\<close> fail when the mass matrices have not been built for
  the current model, rather than use missing matrices or those of a previous model. The two
  functions read the attributes of the object and take no model: an object whose matrices
  were built for the model \<open>[2, 4, 1]\<close> answers \<^verbatim>\<open>getA\<close> with these matrices, although the
  matrices of the model \<open>[1, 1, 1]\<close> differ and give another system matrix.
\<close>

theorem stale_mass_matrices_used:
  "MeSigmaI ex_built \<noteq> Some (buildMeSigmaI ex_built [1, 1, 1]) \<and>
   getA ex_built 0 = Some [[29 / 4, 11 / 2], [11 / 2, 33 / 2]] \<and>
   getA (makeMassMatrices ex_built [1, 1, 1]) 0 = Some [[10, 5], [5, 20]] \<and>
   getA ex_built 0 \<noteq> None"
  by code_simp

text \<open>
  Claim C9, amended. \<^verbatim>\<open>getA\<close> fails when \<^verbatim>\<open>MfMui\<close> or \<^verbatim>\<open>MeSigmaI\<close> was never built, and
  \<^verbatim>\<open>getRHS\<close> fails when \<^verbatim>\<open>MfMui\<close> was never built: a missing matrix is never replaced by a
  default.
\<close>

theorem unbuilt_mass_matrices_fail:
  "(MfMui st = None \<or> MeSigmaI st = None \<longrightarrow> getA st tInd = None) \<and>
   (MfMui st = None \<longrightarrow> getRHS st tInd F = None)"
  by (auto simp: getA_def getRHS_def split: Option.bind_splits)

theorem unbuilt_mass_matrices_fail_witness:
  "MfMui ex_problem = None \<and> MeSigmaI ex_problem = None \<and>
   getA ex_problem 0 = None \<and> getRHS ex_problem 0 ex_u = None"
proof -
  have h: "MfMui ex_problem = None" "MeSigmaI ex_problem = None" by code_simp+
  then show ?thesis
    using unbuilt_mass_matrices_fail [of ex_problem 0 ex_u] by simp
qed

section \<open>The closures of the adjoint solve\<close>

lemma AhRHS_forcing:
  assumes C: "is_mat nf ne (edgeCurl (mesh st))" and nf: "0 < nf" and ne: "0 < ne"
    and Mf: "MfMui st = Some Mf" "is_mat nf nf Mf"
    and MsI: "MeSigmaI st = Some MsI" "is_mat ne ne MsI"
    and pe: "get_e p tInd = Some pe" "is_mat ne k pe"
    and pb: "get_b p tInd = Some pb" "is_mat nf k pb"
  shows "AhRHS p st tInd u =
     (if tInd = 0 then Some (Ah_forcing Mf (edgeCurl (mesh st)) MsI pe pb)
      else do {
        dt \<leftarrow> getDt st tInd;
        r \<leftarrow> py_recip dt;
        ub \<leftarrow> get_b u (tInd - 1);
        t5 \<leftarrow> mmul (smult r Mf) ub;
        np_add (Ah_forcing Mf (edgeCurl (mesh st)) MsI pe pb) t5
      })"
proof -
  let ?C = "edgeCurl (mesh st)"
  have t1: "is_mat nf ne (mat_mult Mf ?C)" by (rule is_mat_mult [OF Mf(2) C nf])
  have t2: "is_mat nf ne (mat_mult (mat_mult Mf ?C) MsI)" by (rule is_mat_mult [OF t1 MsI(2) ne])
  have t3: "is_mat nf k (mat_mult (mat_mult (mat_mult Mf ?C) MsI) pe)"
    by (rule is_mat_mult [OF t2 pe(2) ne])
  have t4: "is_mat nf k (mat_mult Mf pb)" by (rule is_mat_mult [OF Mf(2) pb(2) nf])
  have MsIpe: "is_mat ne k (mat_mult MsI pe)" by (rule is_mat_mult [OF MsI(2) pe(2) ne])
  have "mat_mult (mat_mult (mat_mult Mf ?C) MsI) pe = mat_mult (mat_mult Mf ?C) (mat_mult MsI pe)"
    by (rule mat_mult_assoc [OF t1 MsI(2) pe(2) ne ne])
  also have "\<dots> = mat_mult Mf (mat_mult ?C (mat_mult MsI pe))"
    by (rule mat_mult_assoc [OF Mf(2) C MsIpe nf ne])
  finally have assoc: "mat_mult (mat_mult (mat_mult Mf ?C) MsI) pe =
      mat_mult Mf (mat_mult ?C (mat_mult MsI pe))" .
  have rhs: "np_add (mat_mult (mat_mult (mat_mult Mf ?C) MsI) pe) (mat_mult Mf pb) =
      Some (Ah_forcing Mf ?C MsI pe pb)"
    using np_add_Some [OF t3 t4 nf] by (simp add: Ah_forcing_def assoc)
  show ?thesis
    unfolding AhRHS_def
    by (simp add: Mf(1) MsI(1) pe(1) pb(1) mmul_Some [OF Mf(2) C nf] mmul_Some [OF t1 MsI(2) nf]
        mmul_Some [OF t2 pe(2) nf] mmul_Some [OF Mf(2) pb(2) nf] rhs)
qed

lemma is_mat_Ah_forcing:
  assumes C: "is_mat nf ne C" and nf: "0 < nf" and ne: "0 < ne"
    and Mf: "is_mat nf nf Mf" and MsI: "is_mat ne ne MsI"
    and pe: "is_mat ne k pe" and pb: "is_mat nf k pb"
  shows "is_mat nf k (Ah_forcing Mf C MsI pe pb)"
  unfolding Ah_forcing_def
  by (rule is_mat_add [OF is_mat_mult [OF Mf is_mat_mult [OF C is_mat_mult [OF MsI pe ne] ne] nf] nf])

lemma AhRHS_value:
  assumes C: "is_mat nf ne (edgeCurl (mesh st))" and nf: "0 < nf" and ne: "0 < ne"
    and Mf: "MfMui st = Some Mf" "is_mat nf nf Mf"
    and MsI: "MeSigmaI st = Some MsI" "is_mat ne ne MsI"
    and pe: "get_e p tInd = Some pe" "is_mat ne k pe"
    and pb: "get_b p tInd = Some pb" "is_mat nf k pb"
    and dt: "getDt st tInd = Some dt" "dt \<noteq> 0"
    and ub: "0 < tInd \<Longrightarrow> get_b u (tInd - 1) = Some ub \<and> is_mat nf k ub"
  shows "AhRHS p st tInd u = Some (Ah_rhs Mf (edgeCurl (mesh st)) MsI pe pb dt tInd ub)"
proof (cases "tInd = 0")
  case True
  then show ?thesis
    using AhRHS_forcing [OF C nf ne Mf MsI pe pb, of u] by (simp add: Ah_rhs_def)
next
  case False
  from dt(1) have "0 \<le> tInd" by (simp add: getDt_def split: if_splits)
  with False have pos: "0 < tInd" by simp
  note u = ub [OF pos]
  have F: "is_mat nf k (Ah_forcing Mf (edgeCurl (mesh st)) MsI pe pb)"
    by (rule is_mat_Ah_forcing [OF C nf ne Mf(2) MsI(2) pe(2) pb(2)])
  have t5: "is_mat nf k (smult (1 / dt) (mat_mult Mf ub))"
    by (rule is_mat_smult [OF is_mat_mult [OF Mf(2) conjunct2 [OF u] nf]])
  show ?thesis
    using False pos
    by (simp add: AhRHS_forcing [OF C nf ne Mf MsI pe pb] dt py_recip_Some conjunct1 [OF u]
        mmul_Some [OF is_mat_smult [OF Mf(2)] conjunct2 [OF u] nf] np_add_Some [OF F t5 nf]
        Ah_rhs_def mat_mult_smult_left [OF Mf(2) conjunct2 [OF u] nf])
qed

lemma AhCalcFields_value:
  assumes C: "is_mat nf ne (edgeCurl (mesh st))" and nf: "0 < nf" and ne: "0 < ne"
    and Mf: "MfMui st = Some Mf" "is_mat nf nf Mf"
    and MsI: "MeSigmaI st = Some MsI" "is_mat ne ne MsI"
    and pe: "get_e p tInd = Some pe" "is_mat ne k pe"
    and sol: "is_mat nf k sol"
  shows "AhCalcFields p st sol tInd = Some (sol, Ah_e Mf (edgeCurl (mesh st)) MsI sol pe)"
proof -
  let ?C = "edgeCurl (mesh st)"
  have Ct: "is_mat ne nf (mat_transpose ?C)" by (rule is_mat_transpose [OF C nf])
  have t1: "is_mat ne nf (mat_mult MsI (mat_transpose ?C))" by (rule is_mat_mult [OF MsI(2) Ct ne])
  have t2: "is_mat ne nf (mat_mult (mat_mult MsI (mat_transpose ?C)) Mf)"
    by (rule is_mat_mult [OF t1 Mf(2) nf])
  have t3: "is_mat ne k (mat_mult (mat_mult (mat_mult MsI (mat_transpose ?C)) Mf) sol)"
    by (rule is_mat_mult [OF t2 sol nf])
  have t4: "is_mat ne k (mat_mult MsI pe)" by (rule is_mat_mult [OF MsI(2) pe(2) ne])
  have Mfs: "is_mat nf k (mat_mult Mf sol)" by (rule is_mat_mult [OF Mf(2) sol nf])
  have "mat_mult (mat_mult (mat_mult MsI (mat_transpose ?C)) Mf) sol =
        mat_mult (mat_mult MsI (mat_transpose ?C)) (mat_mult Mf sol)"
    by (rule mat_mult_assoc [OF t1 Mf(2) sol nf nf])
  also have "\<dots> = mat_mult MsI (mat_mult (mat_transpose ?C) (mat_mult Mf sol))"
    by (rule mat_mult_assoc [OF MsI(2) Ct Mfs ne nf])
  finally have assoc: "mat_mult (mat_mult (mat_mult MsI (mat_transpose ?C)) Mf) sol =
        mat_mult MsI (mat_mult (mat_transpose ?C) (mat_mult Mf sol))" .
  have e: "np_sub (mat_mult (mat_mult (mat_mult MsI (mat_transpose ?C)) Mf) sol) (mat_mult MsI pe) =
      Some (Ah_e Mf ?C MsI sol pe)"
    using np_sub_Some [OF t3 t4 ne] by (simp add: Ah_e_def assoc)
  show ?thesis
    unfolding AhCalcFields_def
    by (simp add: Mf(1) MsI(1) pe(1) mmul_Some [OF MsI(2) Ct ne] mmul_Some [OF t1 Mf(2) ne]
        mmul_Some [OF t2 sol ne] mmul_Some [OF MsI(2) pe(2) ne] e)
qed

lemma get_b_b0_update: "0 \<le> t \<Longrightarrow> get_b (u\<lparr>b0 := x\<rparr>) t = get_b u t"
  by (simp add: get_b_def)

text \<open>
  Claim C10. The right-hand side builder of \<^verbatim>\<open>solveAh\<close> never reads the field history at the
  time index \<open>-1\<close>. At \<open>tInd = 0\<close> it takes the branch that returns the forcing
  \<open>MfMui \<cdot> edgeCurl \<cdot> MeSigmaI \<cdot> p.e[0] + MfMui \<cdot> p.b[0]\<close> alone, whatever the history of the
  solve holds; and at no index \<open>tInd \<ge> 0\<close> does its result depend on the initial condition
  stored at index \<open>-1\<close>.
\<close>

theorem AhRHS_first_step:
  assumes "is_mat nf ne (edgeCurl (mesh st))" and "0 < nf" and "0 < ne"
    and "MfMui st = Some Mf" and "is_mat nf nf Mf"
    and "MeSigmaI st = Some MsI" and "is_mat ne ne MsI"
    and "get_e p 0 = Some pe" and "is_mat ne k pe"
    and "get_b p 0 = Some pb" and "is_mat nf k pb"
  shows "AhRHS p st 0 u =
           Some (mat_add (mat_mult Mf (mat_mult (edgeCurl (mesh st)) (mat_mult MsI pe)))
                   (mat_mult Mf pb)) \<and>
         (\<forall>u'. AhRHS p st 0 u' = AhRHS p st 0 u) \<and>
         (\<forall>tInd x. 0 \<le> tInd \<longrightarrow> AhRHS p st tInd (u\<lparr>b0 := x\<rparr>) = AhRHS p st tInd u)"
proof (intro conjI allI impI)
  show "AhRHS p st 0 u =
      Some (mat_add (mat_mult Mf (mat_mult (edgeCurl (mesh st)) (mat_mult MsI pe))) (mat_mult Mf pb))"
    by (simp add: AhRHS_forcing [OF assms] Ah_forcing_def)
next
  fix u' show "AhRHS p st 0 u' = AhRHS p st 0 u"
    by (simp add: AhRHS_def)
next
  fix tInd :: int and x assume "0 \<le> tInd"
  then show "AhRHS p st tInd (u\<lparr>b0 := x\<rparr>) = AhRHS p st tInd u"
    by (cases "tInd = 0") (simp_all add: AhRHS_def get_b_b0_update)
qed

theorem AhRHS_first_step_witness:
  "is_mat 2 3 (edgeCurl (mesh ex_built)) \<and> MfMui ex_built = Some ex_Mf \<and> is_mat 2 2 ex_Mf \<and>
   MeSigmaI ex_built = Some (diag3 (map inverse ex_m)) \<and> is_mat 3 3 (diag3 (map inverse ex_m)) \<and>
   get_e ex_u 0 = Some (ex_ue 0) \<and> is_mat 3 1 (ex_ue 0) \<and>
   get_b ex_u 0 = Some (ex_ub 0) \<and> is_mat 2 1 (ex_ub 0) \<and>
   AhRHS ex_u ex_built 0 ex_u =
     Some (mat_add (mat_mult ex_Mf (mat_mult (edgeCurl (mesh ex_built))
             (mat_mult (diag3 (map inverse ex_m)) (ex_ue 0)))) (mat_mult ex_Mf (ex_ub 0))) \<and>
   AhRHS ex_u ex_built 0 ex_u = Some [[3], [3 / 2]] \<and>
   AhRHS ex_u ex_built 0 (FieldsTDEM_new ex_mesh 1 2) = AhRHS ex_u ex_built 0 ex_u \<and>
   AhRHS ex_u ex_built 1 (ex_u\<lparr>b0 := Some [[5], [7]]\<rparr>) = AhRHS ex_u ex_built 1 ex_u"
proof -
  have h1: "is_mat 2 3 (edgeCurl (mesh ex_built))" by code_simp
  have h2: "MfMui ex_built = Some ex_Mf" by code_simp
  have h3: "is_mat 2 2 ex_Mf" by code_simp
  have h4: "MeSigmaI ex_built = Some (diag3 (map inverse ex_m))" by code_simp
  have h5: "is_mat 3 3 (diag3 (map inverse ex_m))" by code_simp
  have h6: "get_e ex_u 0 = Some (ex_ue 0)" by code_simp
  have h7: "is_mat 3 1 (ex_ue 0)" by code_simp
  have h8: "get_b ex_u 0 = Some (ex_ub 0)" by code_simp
  have h9: "is_mat 2 1 (ex_ub 0)" by code_simp
  have v: "AhRHS ex_u ex_built 0 ex_u = Some [[3], [3 / 2]]" by code_simp
  have pos: "(0::nat) < 2" "(0::nat) < 3" by simp_all
  note t = AhRHS_first_step [OF h1 pos h2 h3 h4 h5 h6 h7 h8 h9, of ex_u]
  have a: "AhRHS ex_u ex_built 0 ex_u =
     Some (mat_add (mat_mult ex_Mf (mat_mult (edgeCurl (mesh ex_built))
             (mat_mult (diag3 (map inverse ex_m)) (ex_ue 0)))) (mat_mult ex_Mf (ex_ub 0)))"
    using t by simp
  have b: "AhRHS ex_u ex_built 0 (FieldsTDEM_new ex_mesh 1 2) = AhRHS ex_u ex_built 0 ex_u"
    by (rule t [THEN conjunct2, THEN conjunct1, rule_format])
  have c: "AhRHS ex_u ex_built 1 (ex_u\<lparr>b0 := Some [[5], [7]]\<rparr>) = AhRHS ex_u ex_built 1 ex_u"
    by (rule t [THEN conjunct2, THEN conjunct2, rule_format]) simp
  from h1 h2 h3 h4 h5 h6 h7 h8 h9 v a b c show ?thesis by simp
qed

section \<open>The residual operator\<close>

lemma AhVec_e_value:
  assumes C: "is_mat nf ne (edgeCurl (mesh st))" and nf: "0 < nf" and ne: "0 < ne"
    and Mf: "MfMui st = Some Mf" "is_mat nf nf Mf"
    and Ms: "MeSigma st = Some Ms" "is_mat ne ne Ms"
    and ub: "get_b u i = Some ub" "is_mat nf k ub"
    and ue: "get_e u i = Some ue" "is_mat ne k ue"
  shows "AhVec_e st u i = Some (AhVec_e_spec (edgeCurl (mesh st)) Mf Ms ub ue)"
proof -
  let ?C = "edgeCurl (mesh st)"
  have Ct: "is_mat ne nf (mat_transpose ?C)" by (rule is_mat_transpose [OF C nf])
  have t1: "is_mat ne nf (mat_mult (mat_transpose ?C) Mf)" by (rule is_mat_mult [OF Ct Mf(2) nf])
  have t2: "is_mat ne k (mat_mult (mat_mult (mat_transpose ?C) Mf) ub)"
    by (rule is_mat_mult [OF t1 ub(2) nf])
  have t3: "is_mat ne k (mat_mult Ms ue)" by (rule is_mat_mult [OF Ms(2) ue(2) ne])
  have assoc: "mat_mult (mat_mult (mat_transpose ?C) Mf) ub =
      mat_mult (mat_transpose ?C) (mat_mult Mf ub)"
    by (rule mat_mult_assoc [OF Ct Mf(2) ub(2) nf nf])
  have e: "np_sub (mat_mult (mat_mult (mat_transpose ?C) Mf) ub) (mat_mult Ms ue) =
      Some (AhVec_e_spec ?C Mf Ms ub ue)"
    using np_sub_Some [OF t2 t3 ne] by (simp add: AhVec_e_spec_def assoc)
  show ?thesis
    unfolding AhVec_e_def
    by (simp add: Mf(1) Ms(1) ub(1) ue(1) mmul_Some [OF Ct Mf(2) ne] mmul_Some [OF t1 ub(2) ne]
        mmul_Some [OF Ms(2) ue(2) ne] e)
qed

lemma AhVec_b0_value:
  assumes C: "is_mat nf ne (edgeCurl (mesh st))" and nf: "0 < nf" and ne: "0 < ne"
    and dt: "getDt st 0 = Some dt" "dt \<noteq> 0"
    and ub: "get_b u 0 = Some ub" "is_mat nf k ub"
    and ue: "get_e u 0 = Some ue" "is_mat ne k ue"
  shows "AhVec_b0 st u = Some (AhVec_b_spec (edgeCurl (mesh st)) dt 0 ub ue ubprev)"
proof -
  have t1: "is_mat nf k (mat_mult (edgeCurl (mesh st)) ue)" by (rule is_mat_mult [OF C ue(2) ne])
  show ?thesis
    unfolding AhVec_b0_def
    by (simp add: dt py_recip_Some ub(1) ue(1) mmul_Some [OF C ue(2) nf]
        np_add_Some [OF is_mat_smult [OF ub(2)] t1 nf] AhVec_b_spec_def)
qed

lemma AhVec_b_value:
  assumes C: "is_mat nf ne (edgeCurl (mesh st))" and nf: "0 < nf" and ne: "0 < ne"
    and dt: "getDt st (int i) = Some dt" "dt \<noteq> 0" and i: "0 < i"
    and ub: "get_b u (int i) = Some ub" "is_mat nf k ub"
    and ue: "get_e u (int i) = Some ue" "is_mat ne k ue"
    and ubp: "get_b u (int i - 1) = Some ubprev" "is_mat nf k ubprev"
  shows "AhVec_b st u (int i) = Some (AhVec_b_spec (edgeCurl (mesh st)) dt i ub ue ubprev)"
proof -
  have t1: "is_mat nf k (mat_mult (edgeCurl (mesh st)) ue)" by (rule is_mat_mult [OF C ue(2) ne])
  have t2: "is_mat nf k (mat_add (smult (1 / dt) ub) (mat_mult (edgeCurl (mesh st)) ue))"
    by (rule is_mat_add [OF is_mat_smult [OF ub(2)] nf])
  show ?thesis
    unfolding AhVec_b_def
    using i
    by (simp add: dt py_recip_Some ub(1) ue(1) ubp(1) mmul_Some [OF C ue(2) nf]
        np_add_Some [OF is_mat_smult [OF ub(2)] t1 nf]
        np_sub_Some [OF t2 is_mat_smult [OF ubp(2)] nf] AhVec_b_spec_def)
qed

lemma AhVec_loop_result:
  assumes vals: "\<forall>i \<in> set ts. AhVec_b st u (int i) = Some (B i) \<and> is_mat nf 1 (B i) \<and>
      AhVec_e st u (int i) = Some (E i) \<and> is_mat ne 1 (E i) \<and> i < n"
    and f: "length (b_hist f) = n" "length (e_hist f) = n" "nF (fmesh f) = nf"
      "nE (fmesh f) = ne" "nTx f = 1"
  shows "\<exists>f'. AhVec_loop st u f ts = Some f' \<and>
     (\<forall>j. get_b f' (int j) = (if j \<in> set ts then Some (B j) else get_b f (int j))) \<and>
     (\<forall>j. get_e f' (int j) = (if j \<in> set ts then Some (E j) else get_e f (int j)))"
  using vals f
proof (induction ts arbitrary: f)
  case Nil
  then show ?case by simp
next
  case (Cons i ts)
  from Cons.prems(1) have hd: "AhVec_b st u (int i) = Some (B i)" "is_mat nf 1 (B i)"
      "AhVec_e st u (int i) = Some (E i)" "is_mat ne 1 (E i)" "i < n"
    by simp_all
  from Cons.prems(1) have tl: "\<forall>i \<in> set ts. AhVec_b st u (int i) = Some (B i) \<and> is_mat nf 1 (B i) \<and>
      AhVec_e st u (int i) = Some (E i) \<and> is_mat ne 1 (E i) \<and> i < n"
    by simp
  obtain f1 where f1: "set_b f (B i) (int i) = Some f1"
    using set_b_Some [of "int i" f "B i"] hd Cons.prems by auto
  note fr1 = set_b_frame [OF f1]
  obtain f2 where f2: "set_e f1 (E i) (int i) = Some f2"
    using set_e_Some [of "int i" f1 "E i"] hd Cons.prems fr1 by auto
  note fr2 = set_e_frame [OF f2]
  have "\<exists>f'. AhVec_loop st u f2 ts = Some f' \<and>
     (\<forall>j. get_b f' (int j) = (if j \<in> set ts then Some (B j) else get_b f2 (int j))) \<and>
     (\<forall>j. get_e f' (int j) = (if j \<in> set ts then Some (E j) else get_e f2 (int j)))"
    by (rule Cons.IH [OF tl]) (simp_all add: fr1 fr2 Cons.prems)
  then obtain f' where f': "AhVec_loop st u f2 ts = Some f'"
      "\<And>j. get_b f' (int j) = (if j \<in> set ts then Some (B j) else get_b f2 (int j))"
      "\<And>j. get_e f' (int j) = (if j \<in> set ts then Some (E j) else get_e f2 (int j))"
    by blast
  have "AhVec_loop st u f (i # ts) = Some f'"
    by (simp add: hd f1 f2 f')
  moreover have "\<And>j. get_b f' (int j) = (if j \<in> set (i # ts) then Some (B j) else get_b f (int j))"
    by (simp add: f'(2) get_b_set_e [OF f2] get_b_set_b [OF f1])
  moreover have "\<And>j. get_e f' (int j) = (if j \<in> set (i # ts) then Some (E j) else get_e f (int j))"
    by (simp add: f'(3) get_e_set_e [OF f2] get_e_set_b [OF f1])
  ultimately show ?case by blast
qed

lemma is_mat_AhVec_b_spec:
  "is_mat nf k ub \<Longrightarrow> 0 < nf \<Longrightarrow> is_mat nf k (AhVec_b_spec C dt i ub ue ubprev)"
  by (simp add: AhVec_b_spec_def is_mat_add is_mat_sub is_mat_smult)

lemma is_mat_AhVec_e_spec:
  "is_mat nf ne C \<Longrightarrow> is_mat nf nf Mf \<Longrightarrow> is_mat nf k ub \<Longrightarrow> 0 < nf \<Longrightarrow> 0 < ne \<Longrightarrow>
   is_mat ne k (AhVec_e_spec C Mf Ms ub ue)"
  unfolding AhVec_e_spec_def
  by (rule is_mat_sub [OF is_mat_mult [OF is_mat_transpose is_mat_mult]])

lemma AhVec_value:
  assumes C: "is_mat nf ne (edgeCurl (mesh st))" and nf: "0 < nf" and ne: "0 < ne"
    and msh: "nF (mesh st) = nf" "nE (mesh st) = ne"
    and Mf: "is_mat nf nf (buildMfMui st m)" and Ms: "is_mat ne ne (buildMeSigma st m)"
    and n: "0 < length (timeSteps st)"
    and dts: "\<forall>i < length (timeSteps st). timeSteps st ! i \<noteq> 0"
    and u: "\<forall>i < length (timeSteps st). get_b u (int i) = Some (ub i) \<and> is_mat nf 1 (ub i) \<and>
              get_e u (int i) = Some (ue i) \<and> is_mat ne 1 (ue i)"
  shows "\<exists>f. AhVec st m (Some u) = Some (f, makeMassMatrices st m) \<and>
     (\<forall>i < length (timeSteps st).
        get_b f (int i) =
          Some (AhVec_b_spec (edgeCurl (mesh st)) (timeSteps st ! i) i (ub i) (ue i) (ub (i - 1))) \<and>
        get_e f (int i) =
          Some (AhVec_e_spec (edgeCurl (mesh st)) (buildMfMui st m) (buildMeSigma st m) (ub i) (ue i)))"
proof -
  let ?st1 = "makeMassMatrices st m"
  let ?n = "length (timeSteps st)"
  let ?C = "edgeCurl (mesh st)"
  let ?B = "\<lambda>i. AhVec_b_spec ?C (timeSteps st ! i) i (ub i) (ue i) (ub (i - 1))"
  let ?E = "\<lambda>i. AhVec_e_spec ?C (buildMfMui st m) (buildMeSigma st m) (ub i) (ue i)"
  have C1: "is_mat nf ne (edgeCurl (mesh ?st1))" using C by (simp add: makeMassMatrices_simps)
  have ui: "get_b u (int i) = Some (ub i)" "is_mat nf 1 (ub i)"
      "get_e u (int i) = Some (ue i)" "is_mat ne 1 (ue i)" if "i < ?n" for i
    using u that by simp_all
  have dti: "getDt ?st1 (int i) = Some (timeSteps st ! i)" "timeSteps st ! i \<noteq> 0" if "i < ?n" for i
    using dts that by (simp_all add: makeMassMatrices_simps getDt_Some)
  have Bshape: "is_mat nf 1 (?B i)" if "i < ?n" for i
    by (rule is_mat_AhVec_b_spec [OF ui(2) [OF that] nf])
  have Eshape: "is_mat ne 1 (?E i)" if "i < ?n" for i
    by (rule is_mat_AhVec_e_spec [OF C Mf ui(2) [OF that] nf ne])
  have Eval: "AhVec_e ?st1 u (int i) = Some (?E i)" if "i < ?n" for i
    using AhVec_e_value [OF C1 nf ne _ Mf _ Ms ui(1) [OF that] ui(2) [OF that] ui(3) [OF that] ui(4) [OF that]]
    by (simp add: makeMassMatrices_simps)
  have dt0: "getDt ?st1 0 = Some (timeSteps st ! 0)"
    using dti(1) [OF n] by simp
  have u0: "get_b u 0 = Some (ub 0)" "get_e u 0 = Some (ue 0)"
    using ui(1) [OF n] ui(3) [OF n] by simp_all
  have B0: "AhVec_b0 ?st1 u = Some (?B 0)"
    using AhVec_b0_value [OF C1 nf ne dt0 dti(2) [OF n] u0(1) ui(2) [OF n] u0(2) ui(4) [OF n]]
    by (simp add: makeMassMatrices_simps)
  have E0: "AhVec_e ?st1 u 0 = Some (?E 0)"
    using Eval [OF n] by simp
  have Bval: "AhVec_b ?st1 u (int i) = Some (?B i)" if "i < ?n" "0 < i" for i
  proof -
    have prev: "get_b u (int i - 1) = Some (ub (i - 1))" "is_mat nf 1 (ub (i - 1))"
      using ui(1) [of "i - 1"] ui(2) [of "i - 1"] that by (simp_all add: of_nat_diff)
    show ?thesis
      using AhVec_b_value [OF C1 nf ne dti(1) [OF that(1)] dti(2) [OF that(1)] that(2)
          ui(1) [OF that(1)] ui(2) [OF that(1)] ui(3) [OF that(1)] ui(4) [OF that(1)] prev]
      by (simp add: makeMassMatrices_simps)
  qed
  let ?f0 = "FieldsTDEM_new (mesh ?st1) 1 (times_size ?st1)"
  obtain f1 where f1: "set_b ?f0 (?B 0) 0 = Some f1"
    using set_b_Some [of 0 ?f0 "?B 0"] Bshape [OF n] n msh
    by (auto simp: FieldsTDEM_new_simps makeMassMatrices_simps times_size_def)
  note fr1 = set_b_frame [OF f1]
  obtain f2 where f2: "set_e f1 (?E 0) 0 = Some f2"
    using set_e_Some [of 0 f1 "?E 0"] Eshape [OF n] n msh fr1
    by (auto simp: FieldsTDEM_new_simps makeMassMatrices_simps times_size_def)
  note fr2 = set_e_frame [OF f2]
  have "\<exists>f'. AhVec_loop ?st1 u f2 [1..<?n] = Some f' \<and>
     (\<forall>j. get_b f' (int j) = (if j \<in> set [1..<?n] then Some (?B j) else get_b f2 (int j))) \<and>
     (\<forall>j. get_e f' (int j) = (if j \<in> set [1..<?n] then Some (?E j) else get_e f2 (int j)))"
  proof (rule AhVec_loop_result [where nf = nf and ne = ne and n = "?n"])
    show "\<forall>i\<in>set [1..<?n]. AhVec_b ?st1 u (int i) = Some (?B i) \<and> is_mat nf 1 (?B i) \<and>
        AhVec_e ?st1 u (int i) = Some (?E i) \<and> is_mat ne 1 (?E i) \<and> i < ?n"
      using Bval Bshape Eval Eshape by simp
  qed (simp_all add: fr1 fr2 FieldsTDEM_new_simps makeMassMatrices_simps times_size_def msh)
  then obtain f where f: "AhVec_loop ?st1 u f2 [1..<?n] = Some f"
      "\<And>j. get_b f (int j) = (if j \<in> set [1..<?n] then Some (?B j) else get_b f2 (int j))"
      "\<And>j. get_e f (int j) = (if j \<in> set [1..<?n] then Some (?E j) else get_e f2 (int j))"
    by blast
  have run: "AhVec st m (Some u) = Some (f, ?st1)"
    using f(1) f1 f2
    by (simp add: AhVec_def fields_or_def B0 E0 makeMassMatrices_simps times_size_def)
  have b2: "get_b f2 (int j) = (if j = 0 then Some (?B 0) else get_b ?f0 (int j))" for j
    by (simp add: get_b_set_e [OF f2] get_b_set_b [OF f1])
  have e2: "get_e f2 (int j) = (if j = 0 then Some (?E 0) else get_e ?f0 (int j))" for j
    by (simp add: get_e_set_e [OF f2] get_e_set_b [OF f1])
  have vals: "get_b f (int i) = Some (?B i) \<and> get_e f (int i) = Some (?E i)" if "i < ?n" for i
  proof (cases "i = 0")
    case True
    then show ?thesis
      using f(2) [of 0] f(3) [of 0] b2 [of 0] e2 [of 0] by simp
  next
    case False
    then show ?thesis
      using that by (simp add: f(2) f(3))
  qed
  show ?thesis
    using run vals by blast
qed

text \<open>
  \<^verbatim>\<open>AhVec\<close> computes the step of index 0 before its loop: on a time mesh without steps it
  fails, at \<^verbatim>\<open>getDt(0)\<close>.
\<close>

lemma AhVec_no_steps: "timeSteps st = [] \<Longrightarrow> AhVec st m (Some u) = None"
  by (simp add: AhVec_def fields_or_def AhVec_b0_def getDt_def makeMassMatrices_def)

text \<open>
  Claim C4. For a model \<open>m\<close> and a field history \<open>u\<close>, \<^verbatim>\<open>AhVec(m, u)\<close> returns a field
  history whose \<^verbatim>\<open>b\<close> component at every index \<open>i\<close> is
  \<open>(1/dt\<^sub>i) \<cdot> u.b[i] + edgeCurl \<cdot> u.e[i] - (1/dt\<^sub>i) \<cdot> u.b[i-1]\<close>, without the last term at
  \<open>i = 0\<close>, and whose \<^verbatim>\<open>e\<close> component is \<open>edgeCurl\<^sup>T \<cdot> MfMui \<cdot> u.b[i] - MeSigma \<cdot> u.e[i]\<close>.
  The history \<open>u\<close> holds one column per field, of the shapes of the mesh, at every time
  step; there is at least one time step, and no step size is zero.
\<close>

theorem AhVec_residual:
  assumes "is_mat nf ne (edgeCurl (mesh st))" and "0 < nf" and "0 < ne"
    and "nF (mesh st) = nf" and "nE (mesh st) = ne"
    and "is_mat nf nf (buildMfMui st m)" and "is_mat ne ne (buildMeSigma st m)"
    and "0 < length (timeSteps st)"
    and "\<forall>i < length (timeSteps st). timeSteps st ! i \<noteq> 0"
    and "\<forall>i < length (timeSteps st). get_b u (int i) = Some (ub i) \<and> is_mat nf 1 (ub i) \<and>
              get_e u (int i) = Some (ue i) \<and> is_mat ne 1 (ue i)"
  shows "\<exists>f. AhVec st m (Some u) = Some (f, makeMassMatrices st m) \<and>
     (\<forall>i < length (timeSteps st).
        get_b f (int i) =
          Some (AhVec_b_spec (edgeCurl (mesh st)) (timeSteps st ! i) i (ub i) (ue i) (ub (i - 1))) \<and>
        get_e f (int i) =
          Some (AhVec_e_spec (edgeCurl (mesh st)) (buildMfMui st m) (buildMeSigma st m) (ub i) (ue i)))"
  by (rule AhVec_value [OF assms])

theorem AhVec_residual_witness:
  "is_mat 2 3 (edgeCurl (mesh ex_problem)) \<and> nF (mesh ex_problem) = 2 \<and> nE (mesh ex_problem) = 3 \<and>
   is_mat 2 2 (buildMfMui ex_problem ex_m) \<and> is_mat 3 3 (buildMeSigma ex_problem ex_m) \<and>
   length (timeSteps ex_problem) = 2 \<and>
   (\<exists>f. AhVec ex_problem ex_m (Some ex_u) = Some (f, makeMassMatrices ex_problem ex_m) \<and>
      get_b f 0 = Some (AhVec_b_spec (edgeCurl (mesh ex_problem)) (1 / 2) 0 (ex_ub 0) (ex_ue 0) (ex_ub 0)) \<and>
      get_b f 0 = Some [[3], [2]] \<and>
      get_e f 0 = Some (AhVec_e_spec (edgeCurl (mesh ex_problem)) ex_Mf (diag3 ex_m) (ex_ub 0) (ex_ue 0)) \<and>
      get_e f 0 = Some [[2], [3], [-9]] \<and>
      get_b f 1 = Some (AhVec_b_spec (edgeCurl (mesh ex_problem)) (1 / 4) 1 (ex_ub 1) (ex_ue 1) (ex_ub 0)) \<and>
      get_b f 1 = Some [[6], [- (23 / 2)]] \<and>
      get_e f 1 = Some (AhVec_e_spec (edgeCurl (mesh ex_problem)) ex_Mf (diag3 ex_m) (ex_ub 1) (ex_ue 1)) \<and>
      get_e f 1 = Some [[7], [-9], [- (1 / 2)]])"
proof -
  have h1: "is_mat 2 3 (edgeCurl (mesh ex_problem))" by code_simp
  have h2: "nF (mesh ex_problem) = 2" "nE (mesh ex_problem) = 3" by code_simp+
  have h3: "is_mat 2 2 (buildMfMui ex_problem ex_m)" by code_simp
  have h4: "is_mat 3 3 (buildMeSigma ex_problem ex_m)" by code_simp
  have h5: "length (timeSteps ex_problem) = 2" by code_simp
  have h6: "0 < length (timeSteps ex_problem)" by (simp add: h5)
  obtain f where f: "AhVec ex_problem ex_m (Some ex_u) = Some (f, makeMassMatrices ex_problem ex_m)"
    and fi: "\<forall>i < length (timeSteps ex_problem).
        get_b f (int i) =
          Some (AhVec_b_spec (edgeCurl (mesh ex_problem)) (timeSteps ex_problem ! i) i (ex_ub i) (ex_ue i) (ex_ub (i - 1))) \<and>
        get_e f (int i) =
          Some (AhVec_e_spec (edgeCurl (mesh ex_problem)) (buildMfMui ex_problem ex_m) (buildMeSigma ex_problem ex_m) (ex_ub i) (ex_ue i))"
    using AhVec_residual [OF h1 _ _ h2 h3 h4 h6 ex_dts ex_u_entries] by auto
  have v: "AhVec_b_spec (edgeCurl (mesh ex_problem)) (1 / 2) 0 (ex_ub 0) (ex_ue 0) (ex_ub 0) = [[3], [2]]"
     "AhVec_e_spec (edgeCurl (mesh ex_problem)) ex_Mf (diag3 ex_m) (ex_ub 0) (ex_ue 0) = [[2], [3], [-9]]"
     "AhVec_b_spec (edgeCurl (mesh ex_problem)) (1 / 4) 1 (ex_ub 1) (ex_ue 1) (ex_ub 0) = [[6], [- (23 / 2)]]"
     "AhVec_e_spec (edgeCurl (mesh ex_problem)) ex_Mf (diag3 ex_m) (ex_ub 1) (ex_ue 1) = [[7], [-9], [- (1 / 2)]]"
    by code_simp+
  have p: "timeSteps ex_problem ! 0 = 1 / 2" "timeSteps ex_problem ! 1 = 1 / 4"
     "buildMfMui ex_problem ex_m = ex_Mf" "buildMeSigma ex_problem ex_m = diag3 ex_m"
    by code_simp+
  have i0: "(0::nat) < length (timeSteps ex_problem)" and i1: "(1::nat) < length (timeSteps ex_problem)"
    by (simp_all add: h5)
  have r0: "get_b f 0 = Some (AhVec_b_spec (edgeCurl (mesh ex_problem)) (1 / 2) 0 (ex_ub 0) (ex_ue 0) (ex_ub 0)) \<and>
    get_e f 0 = Some (AhVec_e_spec (edgeCurl (mesh ex_problem)) ex_Mf (diag3 ex_m) (ex_ub 0) (ex_ue 0))"
    using fi [rule_format, OF i0] by (simp only: p of_nat_0 diff_0_eq_0)
  have r1: "get_b f 1 = Some (AhVec_b_spec (edgeCurl (mesh ex_problem)) (1 / 4) 1 (ex_ub 1) (ex_ue 1) (ex_ub 0)) \<and>
    get_e f 1 = Some (AhVec_e_spec (edgeCurl (mesh ex_problem)) ex_Mf (diag3 ex_m) (ex_ub 1) (ex_ue 1))"
    using fi [rule_format, OF i1] by (simp only: p of_nat_1 diff_self_eq_0)
  from r0 r1 f v h1 h2 h3 h4 h5 show ?thesis by (intro conjI exI [of _ f]) simp_all
qed

section \<open>The forcing of the sensitivity\<close>

lemma G_cols_result:
  assumes "is_mat n k ei" and "is_mat n k pVal" and "length c = n" and "\<forall>j \<in> set js. j < k"
  shows "\<exists>P. G_cols ei c pVal js = Some P \<and> is_mat n k P \<and>
     (\<forall>i < n. \<forall>j < k. P ! i ! j = (if j \<in> set js then - (ei ! i ! j) * c ! i else pVal ! i ! j))"
  using assms
proof (induction js arbitrary: pVal)
  case Nil
  then show ?case by simp
next
  case (Cons j js)
  let ?x = "map2 (\<lambda>x y. x * y) (vneg (col ei j)) c"
  let ?P1 = "map2 (\<lambda>r y. r[j := y]) pVal ?x"
  have lens: "length (vneg (col ei j)) = n" "length pVal = n" "length ei = n"
    using Cons.prems by (simp_all add: vneg_def col_def is_mat_def)
  have x: "ew_mult (vneg (col ei j)) c = Some ?x"
    using lens Cons.prems(3) by (simp add: ew_mult_def)
  have lx: "length ?x = n" using lens Cons.prems(3) by simp
  have xi: "?x ! i = - (ei ! i ! j) * c ! i" if "i < n" for i
    using that lens Cons.prems(3) by (simp add: vneg_def col_def)
  have P1: "set_col pVal j ?x = Some ?P1"
    using lx lens by (simp add: set_col_def nrows_def)
  have P1row: "?P1 ! i = (pVal ! i)[j := - (ei ! i ! j) * c ! i]" if "i < n" for i
    using that lens lx xi [OF that] by simp
  have P1mat: "is_mat n k ?P1"
    unfolding is_mat_def
  proof (intro conjI ballI)
    show "length ?P1 = n" using lens lx by simp
    fix r assume "r \<in> set ?P1"
    then obtain i where i: "i < length ?P1" "r = ?P1 ! i" by (auto simp: in_set_conv_nth)
    then have "i < n" using lens lx by simp
    then show "length r = k"
      using i(2) P1row [of i] is_mat_row [OF Cons.prems(2), of i] by simp
  qed
  have "\<exists>P. G_cols ei c ?P1 js = Some P \<and> is_mat n k P \<and>
     (\<forall>i < n. \<forall>j < k. P ! i ! j = (if j \<in> set js then - (ei ! i ! j) * c ! i else ?P1 ! i ! j))"
    by (rule Cons.IH [OF Cons.prems(1) P1mat Cons.prems(3)]) (use Cons.prems(4) in simp)
  then obtain P where P: "G_cols ei c ?P1 js = Some P" "is_mat n k P"
      "\<And>i j'. i < n \<Longrightarrow> j' < k \<Longrightarrow>
         P ! i ! j' = (if j' \<in> set js then - (ei ! i ! j') * c ! i else ?P1 ! i ! j')"
    by blast
  have run: "G_cols ei c pVal (j # js) = Some P"
    by (simp add: x P1 P(1))
  have ent: "P ! i ! j' = (if j' \<in> set (j # js) then - (ei ! i ! j') * c ! i else pVal ! i ! j')"
    if "i < n" "j' < k" for i j'
    using that P(3) [OF that] P1row [OF that(1)] is_mat_row [OF Cons.prems(2) that(1)]
    by (auto simp: nth_list_update)
  show ?case using run P(2) ent by blast
qed

lemma G_cols_single:
  assumes ei: "is_mat n 1 ei" and n: "0 < n" and c: "length c = n"
  shows "G_cols ei c (empty_like ei) [0..<ncols ei] = Some (G_e_spec ei c)"
proof -
  have nc: "ncols ei = 1" "nrows ei = n"
    using is_mat_ncols [OF ei n] is_mat_nrows [OF ei] by simp_all
  have z: "is_mat n 1 (empty_like ei)" by (simp add: empty_like_def nc is_mat_zero)
  obtain P where P: "G_cols ei c (empty_like ei) [0..<1] = Some P" "is_mat n 1 P"
      "\<forall>i < n. \<forall>j < (1::nat). P ! i ! j = (if j \<in> set [0..<1] then - (ei ! i ! j) * c ! i else empty_like ei ! i ! j)"
    using G_cols_result [OF ei z c, of "[0..<1]"] by auto
  have "P = G_e_spec ei c"
  proof (rule mat_eqI [OF P(2)])
    show "is_mat n 1 (G_e_spec ei c)" by (simp add: G_e_spec_def nc is_mat_mk_mat)
    fix i j :: nat assume "i < n" "j < 1"
    then show "P ! i ! j = G_e_spec ei c ! i ! j"
      using P(3) by (simp add: G_e_spec_def nc mk_mat_nth)
  qed
  then show ?thesis using P(1) by (simp add: nc)
qed

lemma G_loop_result:
  assumes vals: "\<forall>i \<in> set ts. get_e u (int i) = Some (ue i) \<and> is_mat ne 1 (ue i) \<and> i < n"
    and c: "length c = ne" and ne: "0 < ne"
    and p: "length (b_hist p) = n" "length (e_hist p) = n" "nF (fmesh p) = nF (mesh st)"
      "nE (fmesh p) = ne" "nTx p = 1"
  shows "\<exists>p'. G_loop st u c p ts = Some p' \<and>
     (\<forall>j. get_b p' (int j) = (if j \<in> set ts then Some (zero_mat (nF (mesh st)) 1) else get_b p (int j))) \<and>
     (\<forall>j. get_e p' (int j) = (if j \<in> set ts then Some (G_e_spec (ue j) c) else get_e p (int j)))"
  using vals p
proof (induction ts arbitrary: p)
  case Nil
  then show ?case by simp
next
  case (Cons i ts)
  from Cons.prems(1) have hd: "get_e u (int i) = Some (ue i)" "is_mat ne 1 (ue i)" "i < n"
    by simp_all
  from Cons.prems(1) have tl: "\<forall>i \<in> set ts. get_e u (int i) = Some (ue i) \<and> is_mat ne 1 (ue i) \<and> i < n"
    by simp
  have pv: "G_cols (ue i) c (empty_like (ue i)) [0..<ncols (ue i)] = Some (G_e_spec (ue i) c)"
    by (rule G_cols_single [OF hd(2) ne c])
  have sh: "is_mat ne 1 (G_e_spec (ue i) c)"
    using is_mat_ncols [OF hd(2) ne] is_mat_nrows [OF hd(2)]
    by (simp add: G_e_spec_def is_mat_mk_mat)
  obtain p1 where p1: "set_e p (G_e_spec (ue i) c) (int i) = Some p1"
    using set_e_Some [of "int i" p "G_e_spec (ue i) c"] hd sh Cons.prems by auto
  note fr1 = set_e_frame [OF p1]
  obtain p2 where p2: "set_b p1 (zero_mat (nF (mesh st)) 1) (int i) = Some p2"
    using set_b_Some [of "int i" p1 "zero_mat (nF (mesh st)) 1"] hd Cons.prems fr1
    by (auto simp: is_mat_zero)
  note fr2 = set_b_frame [OF p2]
  have "\<exists>p'. G_loop st u c p2 ts = Some p' \<and>
     (\<forall>j. get_b p' (int j) = (if j \<in> set ts then Some (zero_mat (nF (mesh st)) 1) else get_b p2 (int j))) \<and>
     (\<forall>j. get_e p' (int j) = (if j \<in> set ts then Some (G_e_spec (ue j) c) else get_e p2 (int j)))"
    by (rule Cons.IH [OF tl]) (simp_all add: fr1 fr2 Cons.prems)
  then obtain p' where p': "G_loop st u c p2 ts = Some p'"
      "\<And>j. get_b p' (int j) = (if j \<in> set ts then Some (zero_mat (nF (mesh st)) 1) else get_b p2 (int j))"
      "\<And>j. get_e p' (int j) = (if j \<in> set ts then Some (G_e_spec (ue j) c) else get_e p2 (int j))"
    by blast
  have "G_loop st u c p (i # ts) = Some p'"
    using p2 by (simp add: hd pv p1 p')
  moreover have "\<And>j. get_b p' (int j) =
      (if j \<in> set (i # ts) then Some (zero_mat (nF (mesh st)) 1) else get_b p (int j))"
    by (simp add: p'(2) get_b_set_b [OF p2] get_b_set_e [OF p1])
  moreover have "\<And>j. get_e p' (int j) =
      (if j \<in> set (i # ts) then Some (G_e_spec (ue j) c) else get_e p (int j))"
    by (simp add: p'(3) get_e_set_b [OF p2] get_e_set_e [OF p1])
  ultimately show ?case by blast
qed

lemma length_mat_vec: "length (mat_vec A v) = length A"
  by (simp add: mat_vec_def)

lemma G_value:
  assumes ne: "0 < ne" and nc: "0 < nc"
    and msh: "nE (mesh st) = ne"
    and D: "is_mat ne nc (getEdgeMassDeriv (mesh st))"
    and T: "is_mat nc nm (transformDeriv st m)"
    and v: "length v = nm"
    and u: "\<forall>i < length (timeSteps st). get_e u (int i) = Some (ue i) \<and> is_mat ne 1 (ue i)"
  shows "\<exists>p. G st m v (Some u) = Some (p, st) \<and>
     (\<forall>i < length (timeSteps st).
        get_e p (int i) =
          Some (G_e_spec (ue i)
                  (mat_vec (mat_mult (getEdgeMassDeriv (mesh st)) (transformDeriv st m)) v)) \<and>
        get_b p (int i) = Some (zero_mat (nF (mesh st)) 1))"
proof -
  let ?n = "length (timeSteps st)"
  let ?DT = "mat_mult (getEdgeMassDeriv (mesh st)) (transformDeriv st m)"
  let ?c = "mat_vec ?DT v"
  have DT: "is_mat ne nm ?DT" by (rule is_mat_mult [OF D T nc])
  have dm: "mmul (getEdgeMassDeriv (mesh st)) (transformDeriv st m) = Some ?DT"
    by (rule mmul_Some [OF D T ne])
  have c: "mvmul ?DT v = Some ?c"
    using is_mat_ncols [OF DT ne] v by (simp add: mvmul_def)
  have lc: "length ?c = ne"
    using DT by (simp add: length_mat_vec is_mat_def)
  have "\<exists>p'. G_loop st u ?c (FieldsTDEM_new (mesh st) 1 ?n) [0..<?n] = Some p' \<and>
     (\<forall>j. get_b p' (int j) = (if j \<in> set [0..<?n] then Some (zero_mat (nF (mesh st)) 1)
                                else get_b (FieldsTDEM_new (mesh st) 1 ?n) (int j))) \<and>
     (\<forall>j. get_e p' (int j) = (if j \<in> set [0..<?n] then Some (G_e_spec (ue j) ?c)
                                else get_e (FieldsTDEM_new (mesh st) 1 ?n) (int j)))"
  proof (rule G_loop_result [where ne = ne and n = "?n"])
    show "\<forall>i\<in>set [0..<?n]. get_e u (int i) = Some (ue i) \<and> is_mat ne 1 (ue i) \<and> i < ?n"
      using u by simp
  qed (simp_all add: lc ne FieldsTDEM_new_simps msh)
  then obtain p where p: "G_loop st u ?c (FieldsTDEM_new (mesh st) 1 ?n) [0..<?n] = Some p"
      "\<And>j. get_b p (int j) = (if j \<in> set [0..<?n] then Some (zero_mat (nF (mesh st)) 1)
                                else get_b (FieldsTDEM_new (mesh st) 1 ?n) (int j))"
      "\<And>j. get_e p (int j) = (if j \<in> set [0..<?n] then Some (G_e_spec (ue j) ?c)
                                else get_e (FieldsTDEM_new (mesh st) 1 ?n) (int j))"
    by blast
  have "G st m v (Some u) = Some (p, st)"
    using p(1) by (simp add: G_def fields_or_def dm c times_size_def)
  moreover have "get_e p (int i) = Some (G_e_spec (ue i) ?c) \<and>
      get_b p (int i) = Some (zero_mat (nF (mesh st)) 1)" if "i < ?n" for i
    using that by (simp add: p(2) p(3))
  ultimately show ?thesis by blast
qed

lemma mat_vec_linear:
  assumes "length v1 = n" and "length v2 = n"
  shows "mat_vec A (vadd (vsmult a v1) (vsmult b v2)) =
         vadd (vsmult a (mat_vec A v1)) (vsmult b (mat_vec A v2))"
proof (rule nth_equalityI)
  show "length (mat_vec A (vadd (vsmult a v1) (vsmult b v2))) =
        length (vadd (vsmult a (mat_vec A v1)) (vsmult b (mat_vec A v2)))"
    by (simp add: mat_vec_def vadd_def vsmult_def)
next
  fix i assume "i < length (mat_vec A (vadd (vsmult a v1) (vsmult b v2)))"
  then have i: "i < length A" by (simp add: mat_vec_def)
  have "(\<Sum>k<n. A ! i ! k * (a * v1 ! k + b * v2 ! k)) =
        a * (\<Sum>k<n. A ! i ! k * v1 ! k) + b * (\<Sum>k<n. A ! i ! k * v2 ! k)"
    by (simp add: sum_distrib_left sum.distrib [symmetric] algebra_simps)
  moreover have "(\<Sum>k<n. A ! i ! k * vadd (vsmult a v1) (vsmult b v2) ! k) =
        (\<Sum>k<n. A ! i ! k * (a * v1 ! k + b * v2 ! k))"
    by (rule sum.cong) (simp_all add: vadd_def vsmult_def assms)
  ultimately show "mat_vec A (vadd (vsmult a v1) (vsmult b v2)) ! i =
        vadd (vsmult a (mat_vec A v1)) (vsmult b (mat_vec A v2)) ! i"
    using i assms by (simp add: mat_vec_def vadd_def vsmult_def)
qed

lemma G_e_spec_linear:
  assumes ue: "is_mat n k ue" and n: "0 < n" and c: "length c1 = n" "length c2 = n"
  shows "G_e_spec ue (vadd (vsmult a c1) (vsmult b c2)) =
         mat_add (smult a (G_e_spec ue c1)) (smult b (G_e_spec ue c2))"
proof (rule mat_eqI [of n k])
  have d: "nrows ue = n" "ncols ue = k"
    using is_mat_nrows [OF ue] is_mat_ncols [OF ue n] by simp_all
  have s1: "is_mat n k (G_e_spec ue c1)" and s2: "is_mat n k (G_e_spec ue c2)"
    by (simp_all add: G_e_spec_def d is_mat_mk_mat)
  show "is_mat n k (G_e_spec ue (vadd (vsmult a c1) (vsmult b c2)))"
    by (simp add: G_e_spec_def d is_mat_mk_mat)
  show "is_mat n k (mat_add (smult a (G_e_spec ue c1)) (smult b (G_e_spec ue c2)))"
    by (rule is_mat_add [OF is_mat_smult [OF s1] n])
  fix i j assume i: "i < n" and j: "j < k"
  show "G_e_spec ue (vadd (vsmult a c1) (vsmult b c2)) ! i ! j =
        mat_add (smult a (G_e_spec ue c1)) (smult b (G_e_spec ue c2)) ! i ! j"
    using i j c
    by (simp add: mat_add_nth [OF is_mat_smult [OF s1] i j] smult_nth [OF s1 i j]
        smult_nth [OF s2 i j])
       (simp add: G_e_spec_def d mk_mat_nth vadd_def vsmult_def algebra_simps)
qed

lemma zero_mat_linear:
  assumes n: "0 < n"
  shows "zero_mat n k = mat_add (smult a (zero_mat n k)) (smult b (zero_mat n k))"
proof (rule mat_eqI [of n k])
  show "is_mat n k (zero_mat n k)" by (rule is_mat_zero)
  show "is_mat n k (mat_add (smult a (zero_mat n k)) (smult b (zero_mat n k)))"
    by (rule is_mat_add [OF is_mat_smult [OF is_mat_zero] n])
  fix i j assume i: "i < n" and j: "j < k"
  show "zero_mat n k ! i ! j = mat_add (smult a (zero_mat n k)) (smult b (zero_mat n k)) ! i ! j"
    using mat_add_nth [OF is_mat_zero i j, of "zero_mat n k"]
    by (simp add: smult_zero zero_mat_nth i j)
qed

text \<open>
  Claim C5. For a model \<open>m\<close>, a direction \<open>v\<close> and a forward field history \<open>u\<close>,
  \<^verbatim>\<open>G(m, v, u)\<close> returns a field history \<open>p\<close> in which, at every time index \<open>i\<close>, the \<^verbatim>\<open>e\<close>
  component is \<open>-u.e[i]\<close> multiplied entry by entry, column by column, with
  \<open>c = getEdgeMassDeriv() \<cdot> transformDeriv(m) \<cdot> v\<close>, and the \<^verbatim>\<open>b\<close> component is the zero vector.
  The history \<open>p\<close> is created for one transmitter, so the fields of \<open>u\<close> have one column.
\<close>

theorem G_formula:
  assumes "0 < ne" and "0 < nc" and "nE (mesh st) = ne"
    and "is_mat ne nc (getEdgeMassDeriv (mesh st))"
    and "is_mat nc nm (transformDeriv st m)"
    and "length v = nm"
    and "\<forall>i < length (timeSteps st). get_e u (int i) = Some (ue i) \<and> is_mat ne 1 (ue i)"
  shows "\<exists>p. G st m v (Some u) = Some (p, st) \<and>
     (\<forall>i < length (timeSteps st).
        get_e p (int i) =
          Some (G_e_spec (ue i)
                  (mat_vec (mat_mult (getEdgeMassDeriv (mesh st)) (transformDeriv st m)) v)) \<and>
        get_b p (int i) = Some (zero_mat (nF (mesh st)) 1))"
  by (rule G_value [OF assms])

theorem G_formula_witness:
  "nE (mesh ex_problem) = 3 \<and> is_mat 3 3 (getEdgeMassDeriv (mesh ex_problem)) \<and>
   is_mat 3 3 (transformDeriv ex_problem ex_m) \<and> length [1, 2, 3 :: real] = 3 \<and>
   length (timeSteps ex_problem) = 2 \<and>
   mat_vec (mat_mult (getEdgeMassDeriv (mesh ex_problem)) (transformDeriv ex_problem ex_m)) [1, 2, 3] =
     [2, 10, 6] \<and>
   (\<exists>p. G ex_problem ex_m [1, 2, 3] (Some ex_u) = Some (p, ex_problem) \<and>
      get_e p 0 = Some (G_e_spec (ex_ue 0) [2, 10, 6]) \<and> get_e p 0 = Some [[-2], [0], [-12]] \<and>
      get_b p 0 = Some (zero_mat 2 1) \<and>
      get_e p 1 = Some (G_e_spec (ex_ue 1) [2, 10, 6]) \<and> get_e p 1 = Some [[2], [-10], [-3]] \<and>
      get_b p 1 = Some (zero_mat 2 1))"
proof -
  have pos: "(0::nat) < 3" by simp
  have h1: "nE (mesh ex_problem) = 3" by code_simp
  have h2: "is_mat 3 3 (getEdgeMassDeriv (mesh ex_problem))" by code_simp
  have h3: "is_mat 3 3 (transformDeriv ex_problem ex_m)" by code_simp
  have h4: "length [1, 2, 3 :: real] = 3" by simp
  have h5: "length (timeSteps ex_problem) = 2" by code_simp
  have c: "mat_vec (mat_mult (getEdgeMassDeriv (mesh ex_problem)) (transformDeriv ex_problem ex_m)) [1, 2, 3] =
     [2, 10, 6]" by code_simp
  have nf: "nF (mesh ex_problem) = 2" by code_simp
  have v: "G_e_spec (ex_ue 0) [2, 10, 6] = [[-2], [0], [-12]]"
    "G_e_spec (ex_ue 1) [2, 10, 6] = [[2], [-10], [-3]]" by code_simp+
  obtain p where p: "G ex_problem ex_m [1, 2, 3] (Some ex_u) = Some (p, ex_problem)"
    and pi: "\<forall>i < length (timeSteps ex_problem).
        get_e p (int i) =
          Some (G_e_spec (ex_ue i)
                  (mat_vec (mat_mult (getEdgeMassDeriv (mesh ex_problem)) (transformDeriv ex_problem ex_m)) [1, 2, 3])) \<and>
        get_b p (int i) = Some (zero_mat (nF (mesh ex_problem)) 1)"
    using G_formula [OF pos pos h1 h2 h3 h4 ex_u_e_entries] by blast
  have i0: "(0::nat) < length (timeSteps ex_problem)" and i1: "(1::nat) < length (timeSteps ex_problem)"
    by (simp_all add: h5)
  have r0: "get_e p 0 = Some (G_e_spec (ex_ue 0) [2, 10, 6]) \<and> get_b p 0 = Some (zero_mat 2 1)"
    using pi [rule_format, OF i0] by (simp only: c nf of_nat_0)
  have r1: "get_e p 1 = Some (G_e_spec (ex_ue 1) [2, 10, 6]) \<and> get_b p 1 = Some (zero_mat 2 1)"
    using pi [rule_format, OF i1] by (simp only: c nf of_nat_1)
  from h1 h2 h3 h4 h5 c p r0 r1 v show ?thesis
    by (intro conjI exI [of _ p]) simp_all
qed

text \<open>
  Claim C7. \<^verbatim>\<open>G\<close> is linear in its direction: for directions \<open>v1\<close>, \<open>v2\<close> and scalars \<open>a\<close>,
  \<open>b\<close>, the history \<open>G(m, a \<cdot> v1 + b \<cdot> v2, u)\<close> is, component by component and time step by
  time step, \<open>a \<cdot> G(m, v1, u) + b \<cdot> G(m, v2, u)\<close>.
\<close>

theorem G_linear:
  assumes "0 < ne" and "0 < nc" and "nE (mesh st) = ne" and "0 < nF (mesh st)"
    and "is_mat ne nc (getEdgeMassDeriv (mesh st))"
    and "is_mat nc nm (transformDeriv st m)"
    and "length v1 = nm" and "length v2 = nm"
    and "\<forall>i < length (timeSteps st). get_e u (int i) = Some (ue i) \<and> is_mat ne 1 (ue i)"
  shows "\<exists>p p1 p2.
     G st m (vadd (vsmult a v1) (vsmult b v2)) (Some u) = Some (p, st) \<and>
     G st m v1 (Some u) = Some (p1, st) \<and> G st m v2 (Some u) = Some (p2, st) \<and>
     (\<forall>i < length (timeSteps st). \<exists>e1 e2 b1 b2.
        get_e p1 (int i) = Some e1 \<and> get_e p2 (int i) = Some e2 \<and>
        get_e p (int i) = Some (mat_add (smult a e1) (smult b e2)) \<and>
        get_b p1 (int i) = Some b1 \<and> get_b p2 (int i) = Some b2 \<and>
        get_b p (int i) = Some (mat_add (smult a b1) (smult b b2)))"
proof -
  let ?DT = "mat_mult (getEdgeMassDeriv (mesh st)) (transformDeriv st m)"
  let ?v = "vadd (vsmult a v1) (vsmult b v2)"
  have lv: "length ?v = nm" using assms(7,8) by (simp add: vadd_def vsmult_def)
  have DT: "is_mat ne nm ?DT" by (rule is_mat_mult [OF assms(5,6,2)])
  have lc: "length (mat_vec ?DT v1) = ne" "length (mat_vec ?DT v2) = ne"
    using DT by (simp_all add: length_mat_vec is_mat_def)
  obtain p where p: "G st m ?v (Some u) = Some (p, st)"
      "\<And>i. i < length (timeSteps st) \<Longrightarrow>
         get_e p (int i) = Some (G_e_spec (ue i) (mat_vec ?DT ?v)) \<and>
         get_b p (int i) = Some (zero_mat (nF (mesh st)) 1)"
    using G_value [OF assms(1,2,3,5,6) lv assms(9)] by blast
  obtain p1 where p1: "G st m v1 (Some u) = Some (p1, st)"
      "\<And>i. i < length (timeSteps st) \<Longrightarrow>
         get_e p1 (int i) = Some (G_e_spec (ue i) (mat_vec ?DT v1)) \<and>
         get_b p1 (int i) = Some (zero_mat (nF (mesh st)) 1)"
    using G_value [OF assms(1,2,3,5,6,7,9)] by blast
  obtain p2 where p2: "G st m v2 (Some u) = Some (p2, st)"
      "\<And>i. i < length (timeSteps st) \<Longrightarrow>
         get_e p2 (int i) = Some (G_e_spec (ue i) (mat_vec ?DT v2)) \<and>
         get_b p2 (int i) = Some (zero_mat (nF (mesh st)) 1)"
    using G_value [OF assms(1,2,3,5,6,8,9)] by blast
  have "\<exists>e1 e2 b1 b2.
        get_e p1 (int i) = Some e1 \<and> get_e p2 (int i) = Some e2 \<and>
        get_e p (int i) = Some (mat_add (smult a e1) (smult b e2)) \<and>
        get_b p1 (int i) = Some b1 \<and> get_b p2 (int i) = Some b2 \<and>
        get_b p (int i) = Some (mat_add (smult a b1) (smult b b2))"
    if i: "i < length (timeSteps st)" for i
  proof -
    have ue: "is_mat ne 1 (ue i)" using assms(9) i by simp
    have e: "G_e_spec (ue i) (mat_vec ?DT ?v) =
        mat_add (smult a (G_e_spec (ue i) (mat_vec ?DT v1))) (smult b (G_e_spec (ue i) (mat_vec ?DT v2)))"
      by (simp add: mat_vec_linear [OF assms(7,8)] G_e_spec_linear [OF ue assms(1) lc])
    have z: "zero_mat (nF (mesh st)) 1 =
        mat_add (smult a (zero_mat (nF (mesh st)) 1)) (smult b (zero_mat (nF (mesh st)) 1))"
      by (rule zero_mat_linear [OF assms(4)])
    show ?thesis
      using p(2) [OF i] p1(2) [OF i] p2(2) [OF i] e z by simp
  qed
  then show ?thesis using p(1) p1(1) p2(1) by blast
qed

theorem G_linear_witness:
  "nE (mesh ex_problem) = 3 \<and> nF (mesh ex_problem) = 2 \<and>
   is_mat 3 3 (getEdgeMassDeriv (mesh ex_problem)) \<and>
   is_mat 3 3 (transformDeriv ex_problem ex_m) \<and> length (timeSteps ex_problem) = 2 \<and>
   vadd (vsmult 2 [1, 2, 3]) (vsmult (-3) [0, 1, -1]) = [2, 1, 9] \<and>
   (\<exists>p p1 p2 e1 e2 b1 b2.
      G ex_problem ex_m [2, 1, 9] (Some ex_u) = Some (p, ex_problem) \<and>
      G ex_problem ex_m [1, 2, 3] (Some ex_u) = Some (p1, ex_problem) \<and>
      G ex_problem ex_m [0, 1, -1] (Some ex_u) = Some (p2, ex_problem) \<and>
      get_e p1 1 = Some e1 \<and> get_e p2 1 = Some e2 \<and>
      get_e p 1 = Some (mat_add (smult 2 e1) (smult (-3) e2)) \<and>
      get_b p1 1 = Some b1 \<and> get_b p2 1 = Some b2 \<and>
      get_b p 1 = Some (mat_add (smult 2 b1) (smult (-3) b2)))"
proof -
  have pos: "(0::nat) < 3" by simp
  have h1: "nE (mesh ex_problem) = 3" by code_simp
  have nf: "nF (mesh ex_problem) = 2" by code_simp
  have h0: "0 < nF (mesh ex_problem)" by (simp add: nf)
  have h2: "is_mat 3 3 (getEdgeMassDeriv (mesh ex_problem))" by code_simp
  have h3: "is_mat 3 3 (transformDeriv ex_problem ex_m)" by code_simp
  have h4: "length [1, 2, 3 :: real] = 3" "length [0, 1, -1 :: real] = 3" by simp_all
  have h5: "length (timeSteps ex_problem) = 2" by code_simp
  have v: "vadd (vsmult 2 [1, 2, 3]) (vsmult (-3) [0, 1, -1]) = [2, 1, 9]" by code_simp
  have i1: "(1::nat) < length (timeSteps ex_problem)" by (simp add: h5)
  obtain p p1 p2 where g: "G ex_problem ex_m (vadd (vsmult 2 [1, 2, 3]) (vsmult (-3) [0, 1, -1])) (Some ex_u) = Some (p, ex_problem)"
      "G ex_problem ex_m [1, 2, 3] (Some ex_u) = Some (p1, ex_problem)"
      "G ex_problem ex_m [0, 1, -1] (Some ex_u) = Some (p2, ex_problem)"
    and pi: "\<forall>i < length (timeSteps ex_problem). \<exists>e1 e2 b1 b2.
        get_e p1 (int i) = Some e1 \<and> get_e p2 (int i) = Some e2 \<and>
        get_e p (int i) = Some (mat_add (smult 2 e1) (smult (-3) e2)) \<and>
        get_b p1 (int i) = Some b1 \<and> get_b p2 (int i) = Some b2 \<and>
        get_b p (int i) = Some (mat_add (smult 2 b1) (smult (-3) b2))"
    using G_linear [OF pos pos h1 h0 h2 h3 h4 ex_u_e_entries, of 2 "-3"] by blast
  obtain e1 e2 b1 b2 where r: "get_e p1 (int 1) = Some e1" "get_e p2 (int 1) = Some e2"
        "get_e p (int 1) = Some (mat_add (smult 2 e1) (smult (-3) e2))"
        "get_b p1 (int 1) = Some b1" "get_b p2 (int 1) = Some b2"
        "get_b p (int 1) = Some (mat_add (smult 2 b1) (smult (-3) b2))"
    using pi [rule_format, OF i1] by blast
  have "\<exists>p p1 p2 e1 e2 b1 b2.
      G ex_problem ex_m [2, 1, 9] (Some ex_u) = Some (p, ex_problem) \<and>
      G ex_problem ex_m [1, 2, 3] (Some ex_u) = Some (p1, ex_problem) \<and>
      G ex_problem ex_m [0, 1, -1] (Some ex_u) = Some (p2, ex_problem) \<and>
      get_e p1 1 = Some e1 \<and> get_e p2 1 = Some e2 \<and>
      get_e p 1 = Some (mat_add (smult 2 e1) (smult (-3) e2)) \<and>
      get_b p1 1 = Some b1 \<and> get_b p2 1 = Some b2 \<and>
      get_b p 1 = Some (mat_add (smult 2 b1) (smult (-3) b2))"
    using g r unfolding v of_nat_1 by blast
  with h1 nf h2 h3 h5 v show ?thesis by blast
qed

section \<open>The adjoint solve\<close>

lemma AhCalcFields_fst:
  "AhCalcFields p st sol tInd = Some (b, e) \<Longrightarrow> b = sol"
  by (auto simp: AhCalcFields_def split: Option.bind_splits)

text \<open>One step of the driver on the closures of the adjoint solve.\<close>

lemma Ah_step_forward:
  assumes C: "is_mat nf ne (edgeCurl (mesh st))" and nf: "0 < nf" and ne: "0 < ne"
    and Mf: "MfMui st = Some Mf" "is_mat nf nf Mf"
    and MsI: "MeSigmaI st = Some MsI" "is_mat ne ne MsI"
    and dt: "getDt st (int t) = Some dt" "dt \<noteq> 0"
    and pe: "get_e p (int t) = Some pe" "is_mat ne 1 pe"
    and pb: "get_b p (int t) = Some pb" "is_mat nf 1 pb"
    and prev: "0 < t \<Longrightarrow> get_b F (int t - 1) = Some bprev \<and> is_mat nf 1 bprev"
    and F: "nF (fmesh F) = nf" "nE (fmesh F) = ne" "nTx F = 1"
      "t < length (b_hist F)" "t < length (e_hist F)"
    and sol: "Solver st (systemMatrix Mf (edgeCurl (mesh st)) MsI dt)
                (Ah_rhs Mf (edgeCurl (mesh st)) MsI pe pb dt (int t) bprev) = Some sol"
      "is_mat nf 1 sol"
  shows "\<exists>F1 F2. set_b F sol (int t) = Some F1 \<and>
      set_e F1 (Ah_e Mf (edgeCurl (mesh st)) MsI sol pe) (int t) = Some F2 \<and>
      fields_loop st (AhRHS p) (AhCalcFields p) F (t # ts) =
      fields_loop st (AhRHS p) (AhCalcFields p) F2 ts"
proof -
  let ?C = "edgeCurl (mesh st)"
  have A: "getA st (int t) = Some (systemMatrix Mf ?C MsI dt)"
    by (rule getA_eq_systemMatrix [OF C nf ne Mf MsI dt])
  have ub: "0 < int t \<Longrightarrow> get_b F (int t - 1) = Some bprev \<and> is_mat nf 1 bprev"
    using prev by simp
  have rhs: "AhRHS p st (int t) F = Some (Ah_rhs Mf ?C MsI pe pb dt (int t) bprev)"
    by (rule AhRHS_value [OF C nf ne Mf MsI pe pb dt ub])
  have calc: "AhCalcFields p st sol (int t) = Some (sol, Ah_e Mf ?C MsI sol pe)"
    by (rule AhCalcFields_value [OF C nf ne Mf MsI pe sol(2)])
  have esh: "is_mat ne 1 (Ah_e Mf ?C MsI sol pe)"
    unfolding Ah_e_def
    by (rule is_mat_sub [OF is_mat_mult [OF MsI(2) is_mat_mult [OF is_mat_transpose [OF C nf]
          is_mat_mult [OF Mf(2) sol(2) nf] nf] ne] ne])
  obtain F1 where F1: "set_b F sol (int t) = Some F1"
    using set_b_Some [of "int t" F sol] F sol(2) by auto
  note fr1 = set_b_frame [OF F1]
  obtain F2 where F2: "set_e F1 (Ah_e Mf ?C MsI sol pe) (int t) = Some F2"
    using set_e_Some [of "int t" F1 "Ah_e Mf ?C MsI sol pe"] F fr1 esh by auto
  have "fields_loop st (AhRHS p) (AhCalcFields p) F (t # ts) =
      fields_loop st (AhRHS p) (AhCalcFields p) F2 ts"
    by (simp add: A rhs sol(1) calc F1 F2)
  with F1 F2 show ?thesis by blast
qed

lemma Ah_step_backward:
  assumes C: "is_mat nf ne (edgeCurl (mesh st))" and nf: "0 < nf" and ne: "0 < ne"
    and Mf: "MfMui st = Some Mf" "is_mat nf nf Mf"
    and MsI: "MeSigmaI st = Some MsI" "is_mat ne ne MsI"
    and dt: "getDt st (int t) = Some dt" "dt \<noteq> 0"
    and pe: "get_e p (int t) = Some pe" "is_mat ne 1 pe"
    and pb: "get_b p (int t) = Some pb" "is_mat nf 1 pb"
    and prev: "0 < t \<Longrightarrow> get_b F (int t - 1) = Some bprev \<and> is_mat nf 1 bprev"
    and F: "nF (fmesh F) = nf" "nTx F = 1"
    and run: "fields_loop st (AhRHS p) (AhCalcFields p) F (t # ts) = Some Y"
  shows "\<exists>sol F1 F2.
      Solver st (systemMatrix Mf (edgeCurl (mesh st)) MsI dt)
        (Ah_rhs Mf (edgeCurl (mesh st)) MsI pe pb dt (int t) bprev) = Some sol \<and>
      is_mat nf 1 sol \<and> set_b F sol (int t) = Some F1 \<and>
      set_e F1 (Ah_e Mf (edgeCurl (mesh st)) MsI sol pe) (int t) = Some F2 \<and>
      fields_loop st (AhRHS p) (AhCalcFields p) F2 ts = Some Y"
proof -
  let ?C = "edgeCurl (mesh st)"
  have A: "getA st (int t) = Some (systemMatrix Mf ?C MsI dt)"
    by (rule getA_eq_systemMatrix [OF C nf ne Mf MsI dt])
  have ub: "0 < int t \<Longrightarrow> get_b F (int t - 1) = Some bprev \<and> is_mat nf 1 bprev"
    using prev by simp
  have rhs: "AhRHS p st (int t) F = Some (Ah_rhs Mf ?C MsI pe pb dt (int t) bprev)"
    by (rule AhRHS_value [OF C nf ne Mf MsI pe pb dt ub])
  from run obtain sol b e F1 F2 where
      s: "Solver st (systemMatrix Mf ?C MsI dt) (Ah_rhs Mf ?C MsI pe pb dt (int t) bprev) = Some sol"
    and c: "AhCalcFields p st sol (int t) = Some (b, e)"
    and F1: "set_b F b (int t) = Some F1" and F2: "set_e F1 e (int t) = Some F2"
    and rest: "fields_loop st (AhRHS p) (AhCalcFields p) F2 ts = Some Y"
    by (auto simp: A rhs split: Option.bind_splits)
  have b: "b = sol" by (rule AhCalcFields_fst [OF c])
  have sh: "is_mat nf 1 sol"
    using set_b_shape [OF F1] F b by simp
  have "AhCalcFields p st sol (int t) = Some (sol, Ah_e Mf ?C MsI sol pe)"
    by (rule AhCalcFields_value [OF C nf ne Mf MsI pe sh])
  with c have e: "e = Ah_e Mf ?C MsI sol pe" by auto
  show ?thesis
    using s sh F1 F2 rest b e by blast
qed

text \<open>The loop of the driver, from a time index \<open>k\<close> to the last.\<close>

lemma Ah_loop_forward:
  assumes C: "is_mat nf ne (edgeCurl (mesh st))" and nf: "0 < nf" and ne: "0 < ne"
    and Mf: "MfMui st = Some Mf" "is_mat nf nf Mf"
    and MsI: "MeSigmaI st = Some MsI" "is_mat ne ne MsI"
    and dts: "\<forall>t < n. getDt st (int t) = Some (dtf t) \<and> dtf t \<noteq> 0"
    and p: "\<forall>t < n. get_e p (int t) = Some (pe t) \<and> is_mat ne 1 (pe t) \<and>
                    get_b p (int t) = Some (pb t) \<and> is_mat nf 1 (pb t)"
    and sol: "\<forall>t < n. Solver st (systemMatrix Mf (edgeCurl (mesh st)) MsI (dtf t))
                 (Ah_rhs Mf (edgeCurl (mesh st)) MsI (pe t) (pb t) (dtf t) (int t) (yb (t - 1))) =
                 Some (yb t) \<and> is_mat nf 1 (yb t)"
  shows "k \<le> n \<Longrightarrow> nF (fmesh F) = nf \<Longrightarrow> nE (fmesh F) = ne \<Longrightarrow> nTx F = 1 \<Longrightarrow>
     length (b_hist F) = n \<Longrightarrow> length (e_hist F) = n \<Longrightarrow>
     (\<forall>t < k. get_b F (int t) = Some (yb t) \<and>
        get_e F (int t) = Some (Ah_e Mf (edgeCurl (mesh st)) MsI (yb t) (pe t))) \<Longrightarrow>
     \<exists>Y. fields_loop st (AhRHS p) (AhCalcFields p) F [k..<n] = Some Y \<and>
       (\<forall>t < n. get_b Y (int t) = Some (yb t) \<and>
          get_e Y (int t) = Some (Ah_e Mf (edgeCurl (mesh st)) MsI (yb t) (pe t)))"
proof (induction "n - k" arbitrary: k F)
  case 0
  then have "k = n" by simp
  with 0 show ?case by simp
next
  case (Suc d)
  let ?C = "edgeCurl (mesh st)"
  from Suc.hyps(2) have kn: "k < n" by simp
  have prev: "0 < k \<Longrightarrow> get_b F (int k - 1) = Some (yb (k - 1)) \<and> is_mat nf 1 (yb (k - 1))"
  proof -
    assume k: "0 < k"
    then have "k - 1 < k" "k - 1 < n" using kn by simp_all
    moreover have "int (k - 1) = int k - 1" using k by (simp add: of_nat_diff)
    ultimately show ?thesis using Suc.prems(7) sol by (metis)
  qed
  have dk: "getDt st (int k) = Some (dtf k)" "dtf k \<noteq> 0" using dts kn by simp_all
  have pk: "get_e p (int k) = Some (pe k)" "is_mat ne 1 (pe k)"
      "get_b p (int k) = Some (pb k)" "is_mat nf 1 (pb k)" using p kn by simp_all
  have sk: "Solver st (systemMatrix Mf ?C MsI (dtf k))
      (Ah_rhs Mf ?C MsI (pe k) (pb k) (dtf k) (int k) (yb (k - 1))) = Some (yb k)"
      "is_mat nf 1 (yb k)" using sol kn by simp_all
  obtain F1 F2 where F1: "set_b F (yb k) (int k) = Some F1"
    and F2: "set_e F1 (Ah_e Mf ?C MsI (yb k) (pe k)) (int k) = Some F2"
    and step: "fields_loop st (AhRHS p) (AhCalcFields p) F (k # [Suc k..<n]) =
        fields_loop st (AhRHS p) (AhCalcFields p) F2 [Suc k..<n]"
    using Ah_step_forward [OF C nf ne Mf MsI dk pk prev Suc.prems(2,3,4) _ _ sk, of "[Suc k..<n]"]
      Suc.prems(5,6) kn by auto
  note fr1 = set_b_frame [OF F1] and fr2 = set_e_frame [OF F2]
  have inv: "\<forall>t < Suc k. get_b F2 (int t) = Some (yb t) \<and>
        get_e F2 (int t) = Some (Ah_e Mf ?C MsI (yb t) (pe t))"
    using Suc.prems(7)
    by (auto simp: less_Suc_eq get_b_set_e [OF F2] get_b_set_b [OF F1] get_e_set_e [OF F2]
        get_e_set_b [OF F1])
  have "\<exists>Y. fields_loop st (AhRHS p) (AhCalcFields p) F2 [Suc k..<n] = Some Y \<and>
       (\<forall>t < n. get_b Y (int t) = Some (yb t) \<and>
          get_e Y (int t) = Some (Ah_e Mf ?C MsI (yb t) (pe t)))"
  proof (rule Suc.hyps(1))
    show "d = n - Suc k" using Suc.hyps(2) by simp
    show "Suc k \<le> n" using kn by simp
    show "\<forall>t < Suc k. get_b F2 (int t) = Some (yb t) \<and>
        get_e F2 (int t) = Some (Ah_e Mf ?C MsI (yb t) (pe t))" by (rule inv)
  qed (simp_all add: fr1 fr2 Suc.prems)
  then show ?case
    using step upt_conv_Cons [OF kn] by simp
qed

lemma Ah_loop_backward:
  assumes C: "is_mat nf ne (edgeCurl (mesh st))" and nf: "0 < nf" and ne: "0 < ne"
    and Mf: "MfMui st = Some Mf" "is_mat nf nf Mf"
    and MsI: "MeSigmaI st = Some MsI" "is_mat ne ne MsI"
    and dts: "\<forall>t < n. getDt st (int t) = Some (dtf t) \<and> dtf t \<noteq> 0"
    and p: "\<forall>t < n. get_e p (int t) = Some (pe t) \<and> is_mat ne 1 (pe t) \<and>
                    get_b p (int t) = Some (pb t) \<and> is_mat nf 1 (pb t)"
  shows "k \<le> n \<Longrightarrow> nF (fmesh F) = nf \<Longrightarrow> nTx F = 1 \<Longrightarrow>
     (0 < k \<longrightarrow> (\<exists>bp. get_b F (int k - 1) = Some bp \<and> is_mat nf 1 bp)) \<Longrightarrow>
     fields_loop st (AhRHS p) (AhCalcFields p) F [k..<n] = Some Y \<Longrightarrow>
     (\<forall>t. k \<le> t \<and> t < n \<longrightarrow> (\<exists>sol bp.
         get_b Y (int t) = Some sol \<and> is_mat nf 1 sol \<and>
         get_e Y (int t) = Some (Ah_e Mf (edgeCurl (mesh st)) MsI sol (pe t)) \<and>
         (0 < t \<longrightarrow> get_b Y (int t - 1) = Some bp) \<and>
         Solver st (systemMatrix Mf (edgeCurl (mesh st)) MsI (dtf t))
           (Ah_rhs Mf (edgeCurl (mesh st)) MsI (pe t) (pb t) (dtf t) (int t) bp) = Some sol)) \<and>
     (\<forall>t < k. get_b Y (int t) = get_b F (int t) \<and> get_e Y (int t) = get_e F (int t))"
proof (induction "n - k" arbitrary: k F)
  case 0
  then have "k = n" by simp
  with 0 show ?case by auto
next
  case (Suc d)
  let ?C = "edgeCurl (mesh st)"
  from Suc.hyps(2) have kn: "k < n" by simp
  obtain bp where bp: "0 < k \<Longrightarrow> get_b F (int k - 1) = Some bp \<and> is_mat nf 1 bp"
    using Suc.prems(4) by blast
  have dk: "getDt st (int k) = Some (dtf k)" "dtf k \<noteq> 0" using dts kn by simp_all
  have pk: "get_e p (int k) = Some (pe k)" "is_mat ne 1 (pe k)"
      "get_b p (int k) = Some (pb k)" "is_mat nf 1 (pb k)" using p kn by simp_all
  have run: "fields_loop st (AhRHS p) (AhCalcFields p) F (k # [Suc k..<n]) = Some Y"
    using Suc.prems(5) upt_conv_Cons [OF kn] by simp
  obtain sol F1 F2 where
      s: "Solver st (systemMatrix Mf ?C MsI (dtf k))
            (Ah_rhs Mf ?C MsI (pe k) (pb k) (dtf k) (int k) bp) = Some sol"
    and sh: "is_mat nf 1 sol"
    and F1: "set_b F sol (int k) = Some F1"
    and F2: "set_e F1 (Ah_e Mf ?C MsI sol (pe k)) (int k) = Some F2"
    and rest: "fields_loop st (AhRHS p) (AhCalcFields p) F2 [Suc k..<n] = Some Y"
    using Ah_step_backward [OF C nf ne Mf MsI dk pk bp Suc.prems(2,3) run] by blast
  note fr1 = set_b_frame [OF F1] and fr2 = set_e_frame [OF F2]
  have b2: "get_b F2 (int t) = (if t = k then Some sol else get_b F (int t))" for t
    by (simp add: get_b_set_e [OF F2] get_b_set_b [OF F1])
  have e2: "get_e F2 (int t) = (if t = k then Some (Ah_e Mf ?C MsI sol (pe k)) else get_e F (int t))" for t
    by (simp add: get_e_set_e [OF F2] get_e_set_b [OF F1])
  have ih: "(\<forall>t. Suc k \<le> t \<and> t < n \<longrightarrow> (\<exists>sol bp.
         get_b Y (int t) = Some sol \<and> is_mat nf 1 sol \<and>
         get_e Y (int t) = Some (Ah_e Mf ?C MsI sol (pe t)) \<and>
         (0 < t \<longrightarrow> get_b Y (int t - 1) = Some bp) \<and>
         Solver st (systemMatrix Mf ?C MsI (dtf t))
           (Ah_rhs Mf ?C MsI (pe t) (pb t) (dtf t) (int t) bp) = Some sol)) \<and>
     (\<forall>t < Suc k. get_b Y (int t) = get_b F2 (int t) \<and> get_e Y (int t) = get_e F2 (int t))"
  proof (rule Suc.hyps(1))
    show "d = n - Suc k" using Suc.hyps(2) by simp
    show "Suc k \<le> n" using kn by simp
    show "0 < Suc k \<longrightarrow> (\<exists>bp. get_b F2 (int (Suc k) - 1) = Some bp \<and> is_mat nf 1 bp)"
      using b2 [of k] sh by simp
    show "fields_loop st (AhRHS p) (AhCalcFields p) F2 [Suc k..<n] = Some Y" by (rule rest)
  qed (simp_all add: fr1 fr2 Suc.prems)
  have atk: "\<exists>sol bp.
         get_b Y (int k) = Some sol \<and> is_mat nf 1 sol \<and>
         get_e Y (int k) = Some (Ah_e Mf ?C MsI sol (pe k)) \<and>
         (0 < k \<longrightarrow> get_b Y (int k - 1) = Some bp) \<and>
         Solver st (systemMatrix Mf ?C MsI (dtf k))
           (Ah_rhs Mf ?C MsI (pe k) (pb k) (dtf k) (int k) bp) = Some sol"
  proof (intro exI conjI impI)
    show "get_b Y (int k) = Some sol" using ih b2 [of k] by simp
    show "is_mat nf 1 sol" by (rule sh)
    show "get_e Y (int k) = Some (Ah_e Mf ?C MsI sol (pe k))" using ih e2 [of k] by simp
    show "Solver st (systemMatrix Mf ?C MsI (dtf k))
           (Ah_rhs Mf ?C MsI (pe k) (pb k) (dtf k) (int k) bp) = Some sol" by (rule s)
    assume k: "0 < k"
    then have i: "int (k - 1) = int k - 1" by (simp add: of_nat_diff)
    have lt: "k - 1 < Suc k" by simp
    have "get_b Y (int (k - 1)) = get_b F2 (int (k - 1))"
      using conjunct2 [OF ih, rule_format, OF lt] by (rule conjunct1)
    also have "\<dots> = get_b F (int (k - 1))"
    proof -
      have "k - 1 \<noteq> k" using k by simp
      then show ?thesis unfolding b2 [of "k - 1"] by (simp only: if_False)
    qed
    finally have "get_b Y (int (k - 1)) = get_b F (int (k - 1))" .
    then show "get_b Y (int k - 1) = Some bp" using bp [OF k] unfolding i by simp
  qed
  have below: "\<forall>t < k. get_b Y (int t) = get_b F (int t) \<and> get_e Y (int t) = get_e F (int t)"
    using ih b2 e2 by simp
  have "\<exists>sol bp.
         get_b Y (int t) = Some sol \<and> is_mat nf 1 sol \<and>
         get_e Y (int t) = Some (Ah_e Mf ?C MsI sol (pe t)) \<and>
         (0 < t \<longrightarrow> get_b Y (int t - 1) = Some bp) \<and>
         Solver st (systemMatrix Mf ?C MsI (dtf t))
           (Ah_rhs Mf ?C MsI (pe t) (pb t) (dtf t) (int t) bp) = Some sol"
    if "k \<le> t \<and> t < n" for t
  proof (cases "t = k")
    case True
    then show ?thesis using atk by simp
  next
    case False
    then have "Suc k \<le> t \<and> t < n" using that by simp
    then show ?thesis using ih by blast
  qed
  then show ?case using below by blast
qed

lemma solveAh_forward:
  assumes C: "is_mat nf ne (edgeCurl (mesh st))" and nf: "0 < nf" and ne: "0 < ne"
    and msh: "nF (mesh st) = nf" "nE (mesh st) = ne"
    and Mf: "is_mat nf nf (buildMfMui st m)" and MsI: "is_mat ne ne (buildMeSigmaI st m)"
    and dts: "\<forall>t < length (timeSteps st). timeSteps st ! t \<noteq> 0"
    and p: "\<forall>t < length (timeSteps st). get_e p (int t) = Some (pe t) \<and> is_mat ne 1 (pe t) \<and>
              get_b p (int t) = Some (pb t) \<and> is_mat nf 1 (pb t)"
    and sol: "\<forall>t < length (timeSteps st).
        Solver st (systemMatrix (buildMfMui st m) (edgeCurl (mesh st)) (buildMeSigmaI st m) (timeSteps st ! t))
          (Ah_rhs (buildMfMui st m) (edgeCurl (mesh st)) (buildMeSigmaI st m) (pe t) (pb t)
             (timeSteps st ! t) (int t) (yb (t - 1))) = Some (yb t) \<and> is_mat nf 1 (yb t)"
  shows "\<exists>Y. solveAh st m p = Some (Y, makeMassMatrices st m) \<and>
     (\<forall>t < length (timeSteps st). get_b Y (int t) = Some (yb t) \<and>
        get_e Y (int t) =
          Some (Ah_e (buildMfMui st m) (edgeCurl (mesh st)) (buildMeSigmaI st m) (yb t) (pe t)))"
proof -
  let ?st1 = "makeMassMatrices st m"
  let ?n = "length (timeSteps st)"
  let ?F0 = "FieldsTDEM_new (mesh ?st1) 1 (times_size ?st1)"
  have C1: "is_mat nf ne (edgeCurl (mesh ?st1))" using C by (simp add: makeMassMatrices_simps)
  have Mf1: "MfMui ?st1 = Some (buildMfMui st m)" and MsI1: "MeSigmaI ?st1 = Some (buildMeSigmaI st m)"
    by (simp_all add: makeMassMatrices_simps)
  have dts1: "\<forall>t < ?n. getDt ?st1 (int t) = Some (timeSteps st ! t) \<and> timeSteps st ! t \<noteq> 0"
    using dts by (simp add: makeMassMatrices_simps getDt_Some)
  have sol1: "\<forall>t < ?n.
        Solver ?st1 (systemMatrix (buildMfMui st m) (edgeCurl (mesh ?st1)) (buildMeSigmaI st m) (timeSteps st ! t))
          (Ah_rhs (buildMfMui st m) (edgeCurl (mesh ?st1)) (buildMeSigmaI st m) (pe t) (pb t)
             (timeSteps st ! t) (int t) (yb (t - 1))) = Some (yb t) \<and> is_mat nf 1 (yb t)"
    using sol by (simp add: makeMassMatrices_simps)
  have "\<exists>Y. fields_loop ?st1 (AhRHS p) (AhCalcFields p) ?F0 [0..<?n] = Some Y \<and>
       (\<forall>t < ?n. get_b Y (int t) = Some (yb t) \<and>
          get_e Y (int t) =
            Some (Ah_e (buildMfMui st m) (edgeCurl (mesh ?st1)) (buildMeSigmaI st m) (yb t) (pe t)))"
    by (rule Ah_loop_forward [OF C1 nf ne Mf1 Mf MsI1 MsI dts1 p sol1])
       (simp_all add: FieldsTDEM_new_simps makeMassMatrices_simps msh times_size_def)
  then show ?thesis
    by (auto simp: solveAh_def fields_def Let_def makeMassMatrices_simps times_size_def)
qed

lemma solveAh_backward:
  assumes C: "is_mat nf ne (edgeCurl (mesh st))" and nf: "0 < nf" and ne: "0 < ne"
    and msh: "nF (mesh st) = nf" "nE (mesh st) = ne"
    and Mf: "is_mat nf nf (buildMfMui st m)" and MsI: "is_mat ne ne (buildMeSigmaI st m)"
    and dts: "\<forall>t < length (timeSteps st). timeSteps st ! t \<noteq> 0"
    and p: "\<forall>t < length (timeSteps st). get_e p (int t) = Some (pe t) \<and> is_mat ne 1 (pe t) \<and>
              get_b p (int t) = Some (pb t) \<and> is_mat nf 1 (pb t)"
    and run: "solveAh st m p = Some (Y, st')"
  shows "st' = makeMassMatrices st m \<and>
     (\<forall>t < length (timeSteps st). \<exists>A sol bp.
        getA st' (int t) = Some A \<and>
        A = systemMatrix (buildMfMui st m) (edgeCurl (mesh st)) (buildMeSigmaI st m) (timeSteps st ! t) \<and>
        (0 < t \<longrightarrow> get_b Y (int t - 1) = Some bp) \<and>
        Solver st A
          (Ah_rhs (buildMfMui st m) (edgeCurl (mesh st)) (buildMeSigmaI st m) (pe t) (pb t)
             (timeSteps st ! t) (int t) bp) = Some sol \<and>
        get_b Y (int t) = Some sol \<and> is_mat nf 1 sol \<and>
        get_e Y (int t) =
          Some (Ah_e (buildMfMui st m) (edgeCurl (mesh st)) (buildMeSigmaI st m) sol (pe t)))"
proof -
  let ?st1 = "makeMassMatrices st m"
  let ?n = "length (timeSteps st)"
  let ?F0 = "FieldsTDEM_new (mesh ?st1) 1 (times_size ?st1)"
  let ?Mf = "buildMfMui st m" and ?MsI = "buildMeSigmaI st m" and ?C = "edgeCurl (mesh st)"
  have C1: "is_mat nf ne (edgeCurl (mesh ?st1))" using C by (simp add: makeMassMatrices_simps)
  have Mf1: "MfMui ?st1 = Some ?Mf" and MsI1: "MeSigmaI ?st1 = Some ?MsI"
    by (simp_all add: makeMassMatrices_simps)
  have dts1: "\<forall>t < ?n. getDt ?st1 (int t) = Some (timeSteps st ! t) \<and> timeSteps st ! t \<noteq> 0"
    using dts by (simp add: makeMassMatrices_simps getDt_Some)
  from run have st': "st' = ?st1"
    and loop: "fields_loop ?st1 (AhRHS p) (AhCalcFields p) ?F0 [0..<?n] = Some Y"
    by (auto simp: solveAh_def fields_def Let_def times_size_def makeMassMatrices_simps
        split: Option.bind_splits)
  have steps: "(\<forall>t. 0 \<le> t \<and> t < ?n \<longrightarrow> (\<exists>sol bp.
         get_b Y (int t) = Some sol \<and> is_mat nf 1 sol \<and>
         get_e Y (int t) = Some (Ah_e ?Mf (edgeCurl (mesh ?st1)) ?MsI sol (pe t)) \<and>
         (0 < t \<longrightarrow> get_b Y (int t - 1) = Some bp) \<and>
         Solver ?st1 (systemMatrix ?Mf (edgeCurl (mesh ?st1)) ?MsI (timeSteps st ! t))
           (Ah_rhs ?Mf (edgeCurl (mesh ?st1)) ?MsI (pe t) (pb t) (timeSteps st ! t) (int t) bp) = Some sol)) \<and>
     (\<forall>t < 0. get_b Y (int t) = get_b ?F0 (int t) \<and> get_e Y (int t) = get_e ?F0 (int t))"
    by (rule Ah_loop_backward [OF C1 nf ne Mf1 Mf MsI1 MsI dts1 p _ _ _ _ loop])
       (simp_all add: FieldsTDEM_new_simps makeMassMatrices_simps msh)
  have "\<exists>A sol bp.
        getA st' (int t) = Some A \<and>
        A = systemMatrix ?Mf ?C ?MsI (timeSteps st ! t) \<and>
        (0 < t \<longrightarrow> get_b Y (int t - 1) = Some bp) \<and>
        Solver st A (Ah_rhs ?Mf ?C ?MsI (pe t) (pb t) (timeSteps st ! t) (int t) bp) = Some sol \<and>
        get_b Y (int t) = Some sol \<and> is_mat nf 1 sol \<and>
        get_e Y (int t) = Some (Ah_e ?Mf ?C ?MsI sol (pe t))"
    if t: "t < ?n" for t
  proof -
    have dt: "getDt ?st1 (int t) = Some (timeSteps st ! t)" "timeSteps st ! t \<noteq> 0"
      using dts1 t by simp_all
    have A: "getA st' (int t) = Some (systemMatrix ?Mf ?C ?MsI (timeSteps st ! t))"
      using getA_eq_systemMatrix [OF C1 nf ne Mf1 Mf MsI1 MsI dt]
      by (simp add: st' makeMassMatrices_simps)
    from steps t obtain sol bp where
        "get_b Y (int t) = Some sol" "is_mat nf 1 sol"
        "get_e Y (int t) = Some (Ah_e ?Mf (edgeCurl (mesh ?st1)) ?MsI sol (pe t))"
        "0 < t \<longrightarrow> get_b Y (int t - 1) = Some bp"
        "Solver ?st1 (systemMatrix ?Mf (edgeCurl (mesh ?st1)) ?MsI (timeSteps st ! t))
           (Ah_rhs ?Mf (edgeCurl (mesh ?st1)) ?MsI (pe t) (pb t) (timeSteps st ! t) (int t) bp) = Some sol"
      by blast
    then show ?thesis
      using A by (auto simp: makeMassMatrices_simps)
  qed
  then show ?thesis using st' by blast
qed

subsection \<open>The adjoint solve applied to the residual\<close>

text \<open>The algebra of one time step, with \<open>MeSigmaI\<close> the inverse of \<open>MeSigma\<close>.\<close>

lemma residual_e_inverts:
  assumes C: "is_mat nf ne C" and nf: "0 < nf" and ne: "0 < ne"
    and Mf: "is_mat nf nf Mf" and Ms: "is_mat ne ne Ms" and MsI: "is_mat ne ne MsI"
    and inv: "mat_mult MsI Ms = id_mat ne"
    and ub: "is_mat nf k ub" and ue: "is_mat ne k ue"
  shows "mat_mult MsI (AhVec_e_spec C Mf Ms ub ue) =
         mat_sub (mat_mult MsI (mat_mult (mat_transpose C) (mat_mult Mf ub))) ue"
proof -
  have Ct: "is_mat ne nf (mat_transpose C)" by (rule is_mat_transpose [OF C nf])
  have W: "is_mat ne k (mat_mult (mat_transpose C) (mat_mult Mf ub))"
    by (rule is_mat_mult [OF Ct is_mat_mult [OF Mf ub nf] nf])
  have Msue: "is_mat ne k (mat_mult Ms ue)" by (rule is_mat_mult [OF Ms ue ne])
  have "mat_mult MsI (mat_mult Ms ue) = mat_mult (mat_mult MsI Ms) ue"
    by (rule mat_mult_assoc [OF MsI Ms ue ne ne, symmetric])
  also have "\<dots> = ue" by (simp add: inv mat_mult_id_left [OF ue ne])
  finally have undo: "mat_mult MsI (mat_mult Ms ue) = ue" .
  show ?thesis
    unfolding AhVec_e_spec_def
    by (simp add: mat_mult_sub_right [OF MsI W Msue ne] undo)
qed

lemma Ah_e_of_residual:
  assumes C: "is_mat nf ne C" and nf: "0 < nf" and ne: "0 < ne"
    and Mf: "is_mat nf nf Mf" and Ms: "is_mat ne ne Ms" and MsI: "is_mat ne ne MsI"
    and inv: "mat_mult MsI Ms = id_mat ne"
    and ub: "is_mat nf k ub" and ue: "is_mat ne k ue"
  shows "Ah_e Mf C MsI ub (AhVec_e_spec C Mf Ms ub ue) = ue"
proof -
  have Ct: "is_mat ne nf (mat_transpose C)" by (rule is_mat_transpose [OF C nf])
  have V: "is_mat ne k (mat_mult MsI (mat_mult (mat_transpose C) (mat_mult Mf ub)))"
    by (rule is_mat_mult [OF MsI is_mat_mult [OF Ct is_mat_mult [OF Mf ub nf] nf] ne])
  show ?thesis
    unfolding Ah_e_def
    by (simp add: residual_e_inverts [OF C nf ne Mf Ms MsI inv ub ue] cancel_field [OF V ue ne])
qed

lemma forcing_of_residual_e:
  assumes C: "is_mat nf ne C" and nf: "0 < nf" and ne: "0 < ne"
    and Mf: "is_mat nf nf Mf" and Ms: "is_mat ne ne Ms" and MsI: "is_mat ne ne MsI"
    and inv: "mat_mult MsI Ms = id_mat ne"
    and ub: "is_mat nf k ub" and ue: "is_mat ne k ue"
  shows "mat_mult Mf (mat_mult C (mat_mult MsI (AhVec_e_spec C Mf Ms ub ue))) =
         mat_sub (mat_mult (mat_mult Mf (mat_mult C (mat_mult MsI (mat_mult (mat_transpose C) Mf)))) ub)
                 (mat_mult Mf (mat_mult C ue))"
proof -
  have Ct: "is_mat ne nf (mat_transpose C)" by (rule is_mat_transpose [OF C nf])
  have CtMf: "is_mat ne nf (mat_mult (mat_transpose C) Mf)" by (rule is_mat_mult [OF Ct Mf nf])
  have Mfub: "is_mat nf k (mat_mult Mf ub)" by (rule is_mat_mult [OF Mf ub nf])
  have W: "is_mat ne k (mat_mult (mat_transpose C) (mat_mult Mf ub))"
    by (rule is_mat_mult [OF Ct Mfub nf])
  have V: "is_mat ne k (mat_mult MsI (mat_mult (mat_transpose C) (mat_mult Mf ub)))"
    by (rule is_mat_mult [OF MsI W ne])
  have CV: "is_mat nf k (mat_mult C (mat_mult MsI (mat_mult (mat_transpose C) (mat_mult Mf ub))))"
    by (rule is_mat_mult [OF C V ne])
  have Cue: "is_mat nf k (mat_mult C ue)" by (rule is_mat_mult [OF C ue ne])
  have M1: "is_mat ne nf (mat_mult MsI (mat_mult (mat_transpose C) Mf))"
    by (rule is_mat_mult [OF MsI CtMf ne])
  have M2: "is_mat nf nf (mat_mult C (mat_mult MsI (mat_mult (mat_transpose C) Mf)))"
    by (rule is_mat_mult [OF C M1 ne])
  have a1: "mat_mult (mat_transpose C) (mat_mult Mf ub) = mat_mult (mat_mult (mat_transpose C) Mf) ub"
    by (rule mat_mult_assoc [OF Ct Mf ub nf nf, symmetric])
  have a2: "mat_mult MsI (mat_mult (mat_mult (mat_transpose C) Mf) ub) =
            mat_mult (mat_mult MsI (mat_mult (mat_transpose C) Mf)) ub"
    by (rule mat_mult_assoc [OF MsI CtMf ub ne nf, symmetric])
  have a3: "mat_mult C (mat_mult (mat_mult MsI (mat_mult (mat_transpose C) Mf)) ub) =
            mat_mult (mat_mult C (mat_mult MsI (mat_mult (mat_transpose C) Mf))) ub"
    by (rule mat_mult_assoc [OF C M1 ub ne nf, symmetric])
  have a4: "mat_mult Mf (mat_mult (mat_mult C (mat_mult MsI (mat_mult (mat_transpose C) Mf))) ub) =
            mat_mult (mat_mult Mf (mat_mult C (mat_mult MsI (mat_mult (mat_transpose C) Mf)))) ub"
    by (rule mat_mult_assoc [OF Mf M2 ub nf nf, symmetric])
  have "mat_mult Mf (mat_mult C (mat_mult MsI (AhVec_e_spec C Mf Ms ub ue))) =
        mat_mult Mf (mat_mult C (mat_sub (mat_mult MsI (mat_mult (mat_transpose C) (mat_mult Mf ub))) ue))"
    by (simp add: residual_e_inverts [OF C nf ne Mf Ms MsI inv ub ue])
  also have "\<dots> = mat_mult Mf (mat_sub (mat_mult C (mat_mult MsI (mat_mult (mat_transpose C) (mat_mult Mf ub))))
                                  (mat_mult C ue))"
    by (simp add: mat_mult_sub_right [OF C V ue ne])
  also have "\<dots> = mat_sub (mat_mult Mf (mat_mult C (mat_mult MsI (mat_mult (mat_transpose C) (mat_mult Mf ub)))))
                           (mat_mult Mf (mat_mult C ue))"
    by (rule mat_mult_sub_right [OF Mf CV Cue nf])
  also have "mat_mult Mf (mat_mult C (mat_mult MsI (mat_mult (mat_transpose C) (mat_mult Mf ub)))) =
        mat_mult (mat_mult Mf (mat_mult C (mat_mult MsI (mat_mult (mat_transpose C) Mf)))) ub"
    by (simp only: a1 a2 a3 a4)
  finally show ?thesis .
qed

lemma rhs_of_residual:
  assumes C: "is_mat nf ne C" and nf: "0 < nf" and ne: "0 < ne"
    and Mf: "is_mat nf nf Mf" and Ms: "is_mat ne ne Ms" and MsI: "is_mat ne ne MsI"
    and inv: "mat_mult MsI Ms = id_mat ne"
    and ub: "is_mat nf k ub" and ue: "is_mat ne k ue" and ubp: "is_mat nf k ubp"
  shows "Ah_rhs Mf C MsI (AhVec_e_spec C Mf Ms ub ue) (AhVec_b_spec C dt t ub ue ubp) dt (int t) ubp =
         mat_mult (systemMatrix Mf C MsI dt) ub"
proof -
  let ?X = "mat_mult Mf (mat_mult C (mat_mult MsI (mat_mult (mat_transpose C) Mf)))"
  let ?r = "1 / dt"
  let ?P = "mat_mult ?X ub"
  let ?Q = "mat_mult Mf (mat_mult C ue)"
  let ?R = "smult ?r (mat_mult Mf ub)"
  let ?S = "smult ?r (mat_mult Mf ubp)"
  have Ct: "is_mat ne nf (mat_transpose C)" by (rule is_mat_transpose [OF C nf])
  have X: "is_mat nf nf ?X"
    by (rule is_mat_mult [OF Mf is_mat_mult [OF C is_mat_mult [OF MsI is_mat_mult [OF Ct Mf nf] ne] ne] nf])
  have P: "is_mat nf k ?P" by (rule is_mat_mult [OF X ub nf])
  have Cue: "is_mat nf k (mat_mult C ue)" by (rule is_mat_mult [OF C ue ne])
  have Q: "is_mat nf k ?Q" by (rule is_mat_mult [OF Mf Cue nf])
  have R: "is_mat nf k ?R" by (rule is_mat_smult [OF is_mat_mult [OF Mf ub nf]])
  have S: "is_mat nf k ?S" by (rule is_mat_smult [OF is_mat_mult [OF Mf ubp nf]])
  have sum0: "is_mat nf k (mat_add (smult ?r ub) (mat_mult C ue))"
    by (rule is_mat_add [OF is_mat_smult [OF ub] nf])
  have target: "mat_mult (systemMatrix Mf C MsI dt) ub = mat_add ?P ?R"
    unfolding systemMatrix_def
    by (simp add: mat_mult_add_left [OF X is_mat_smult [OF Mf] ub nf nf]
        mat_mult_smult_left [OF Mf ub nf])
  have b0: "mat_mult Mf (mat_add (smult ?r ub) (mat_mult C ue)) = mat_add ?R ?Q"
    by (simp add: mat_mult_add_right [OF Mf is_mat_smult [OF ub] Cue nf]
        mat_mult_smult_right [OF Mf ub nf])
  have b1: "mat_mult Mf (mat_sub (mat_add (smult ?r ub) (mat_mult C ue)) (smult ?r ubp)) =
      mat_sub (mat_add ?R ?Q) ?S"
    by (simp add: mat_mult_sub_right [OF Mf sum0 is_mat_smult [OF ubp] nf] b0
        mat_mult_smult_right [OF Mf ubp nf])
  note e = forcing_of_residual_e [OF C nf ne Mf Ms MsI inv ub ue]
  show ?thesis
  proof (cases "t = 0")
    case True
    then show ?thesis
      by (simp add: Ah_rhs_def Ah_forcing_def AhVec_b_spec_def e b0 target
          cancel_first_step [OF P Q R nf])
  next
    case False
    then show ?thesis
      by (simp add: Ah_rhs_def Ah_forcing_def AhVec_b_spec_def e b1 target
          cancel_later_step [OF P Q R S nf])
  qed
qed

text \<open>The residual applied to the adjoint solve, with \<open>MeSigma\<close> the inverse of \<open>MeSigmaI\<close>.\<close>

lemma is_mat_Ah_e:
  assumes C: "is_mat nf ne C" and nf: "0 < nf" and ne: "0 < ne"
    and Mf: "is_mat nf nf Mf" and MsI: "is_mat ne ne MsI" and b: "is_mat nf k b"
  shows "is_mat ne k (Ah_e Mf C MsI b pe)"
  unfolding Ah_e_def
  by (rule is_mat_sub [OF is_mat_mult [OF MsI is_mat_mult [OF is_mat_transpose [OF C nf]
        is_mat_mult [OF Mf b nf] nf] ne] ne])

lemma residual_of_Ah_e:
  assumes C: "is_mat nf ne C" and nf: "0 < nf" and ne: "0 < ne"
    and Mf: "is_mat nf nf Mf" and Ms: "is_mat ne ne Ms" and MsI: "is_mat ne ne MsI"
    and inv: "mat_mult Ms MsI = id_mat ne"
    and b: "is_mat nf k b" and pe: "is_mat ne k pe"
  shows "AhVec_e_spec C Mf Ms b (Ah_e Mf C MsI b pe) = pe"
proof -
  let ?W = "mat_mult (mat_transpose C) (mat_mult Mf b)"
  have W: "is_mat ne k ?W"
    by (rule is_mat_mult [OF is_mat_transpose [OF C nf] is_mat_mult [OF Mf b nf] nf])
  have MW: "is_mat ne k (mat_mult MsI ?W)" by (rule is_mat_mult [OF MsI W ne])
  have Mp: "is_mat ne k (mat_mult MsI pe)" by (rule is_mat_mult [OF MsI pe ne])
  have undo: "mat_mult Ms (mat_mult MsI X) = X" if X: "is_mat ne k X" for X
  proof -
    have "mat_mult Ms (mat_mult MsI X) = mat_mult (mat_mult Ms MsI) X"
      by (rule mat_mult_assoc [OF Ms MsI X ne ne, symmetric])
    then show ?thesis by (simp add: inv mat_mult_id_left [OF X ne])
  qed
  show ?thesis
    unfolding AhVec_e_spec_def Ah_e_def
    by (simp add: mat_mult_sub_right [OF Ms MW Mp ne] undo [OF W] undo [OF pe]
        cancel_field [OF W pe ne])
qed

lemma Mf_residual_of_solution:
  assumes C: "is_mat nf ne C" and nf: "0 < nf" and ne: "0 < ne"
    and Mf: "is_mat nf nf Mf" and MsI: "is_mat ne ne MsI"
    and yb: "is_mat nf k yb" and ybp: "is_mat nf k ybp"
    and pe: "is_mat ne k pe" and pb: "is_mat nf k pb"
    and solved: "mat_mult (systemMatrix Mf C MsI dt) yb = Ah_rhs Mf C MsI pe pb dt (int t) ybp"
  shows "mat_mult Mf (AhVec_b_spec C dt t yb (Ah_e Mf C MsI yb pe) ybp) = mat_mult Mf pb"
proof -
  let ?X = "mat_mult Mf (mat_mult C (mat_mult MsI (mat_mult (mat_transpose C) Mf)))"
  let ?r = "1 / dt"
  let ?W = "mat_mult (mat_transpose C) (mat_mult Mf yb)"
  let ?ue = "Ah_e Mf C MsI yb pe"
  let ?P = "mat_mult ?X yb"
  let ?R = "smult ?r (mat_mult Mf yb)"
  let ?E = "mat_mult Mf (mat_mult C (mat_mult MsI pe))"
  let ?B = "mat_mult Mf pb"
  let ?S = "smult ?r (mat_mult Mf ybp)"
  have Ct: "is_mat ne nf (mat_transpose C)" by (rule is_mat_transpose [OF C nf])
  have CtMf: "is_mat ne nf (mat_mult (mat_transpose C) Mf)" by (rule is_mat_mult [OF Ct Mf nf])
  have M1: "is_mat ne nf (mat_mult MsI (mat_mult (mat_transpose C) Mf))"
    by (rule is_mat_mult [OF MsI CtMf ne])
  have M2: "is_mat nf nf (mat_mult C (mat_mult MsI (mat_mult (mat_transpose C) Mf)))"
    by (rule is_mat_mult [OF C M1 ne])
  have X: "is_mat nf nf ?X" by (rule is_mat_mult [OF Mf M2 nf])
  have W: "is_mat ne k ?W" by (rule is_mat_mult [OF Ct is_mat_mult [OF Mf yb nf] nf])
  have MW: "is_mat ne k (mat_mult MsI ?W)" by (rule is_mat_mult [OF MsI W ne])
  have Mp: "is_mat ne k (mat_mult MsI pe)" by (rule is_mat_mult [OF MsI pe ne])
  have CMW: "is_mat nf k (mat_mult C (mat_mult MsI ?W))" by (rule is_mat_mult [OF C MW ne])
  have CMp: "is_mat nf k (mat_mult C (mat_mult MsI pe))" by (rule is_mat_mult [OF C Mp ne])
  have ue: "is_mat ne k ?ue" by (rule is_mat_Ah_e [OF C nf ne Mf MsI yb])
  have Cue: "is_mat nf k (mat_mult C ?ue)" by (rule is_mat_mult [OF C ue ne])
  have P: "is_mat nf k ?P" by (rule is_mat_mult [OF X yb nf])
  have R: "is_mat nf k ?R" by (rule is_mat_smult [OF is_mat_mult [OF Mf yb nf]])
  have E: "is_mat nf k ?E" by (rule is_mat_mult [OF Mf CMp nf])
  have B: "is_mat nf k ?B" by (rule is_mat_mult [OF Mf pb nf])
  have S: "is_mat nf k ?S" by (rule is_mat_smult [OF is_mat_mult [OF Mf ybp nf]])
  have a1: "mat_mult (mat_transpose C) (mat_mult Mf yb) = mat_mult (mat_mult (mat_transpose C) Mf) yb"
    by (rule mat_mult_assoc [OF Ct Mf yb nf nf, symmetric])
  have a2: "mat_mult MsI (mat_mult (mat_mult (mat_transpose C) Mf) yb) =
            mat_mult (mat_mult MsI (mat_mult (mat_transpose C) Mf)) yb"
    by (rule mat_mult_assoc [OF MsI CtMf yb ne nf, symmetric])
  have a3: "mat_mult C (mat_mult (mat_mult MsI (mat_mult (mat_transpose C) Mf)) yb) =
            mat_mult (mat_mult C (mat_mult MsI (mat_mult (mat_transpose C) Mf))) yb"
    by (rule mat_mult_assoc [OF C M1 yb ne nf, symmetric])
  have a4: "mat_mult Mf (mat_mult (mat_mult C (mat_mult MsI (mat_mult (mat_transpose C) Mf))) yb) = ?P"
    by (rule mat_mult_assoc [OF Mf M2 yb nf nf, symmetric])
  have PX: "mat_mult Mf (mat_mult C (mat_mult MsI ?W)) = ?P"
    by (simp only: a1 a2 a3 a4)
  have "mat_mult Mf (mat_mult C ?ue) =
        mat_mult Mf (mat_sub (mat_mult C (mat_mult MsI ?W)) (mat_mult C (mat_mult MsI pe)))"
    unfolding Ah_e_def by (simp add: mat_mult_sub_right [OF C MW Mp ne])
  also have "\<dots> = mat_sub (mat_mult Mf (mat_mult C (mat_mult MsI ?W))) ?E"
    by (rule mat_mult_sub_right [OF Mf CMW CMp nf])
  finally have Q: "mat_mult Mf (mat_mult C ?ue) = mat_sub ?P ?E"
    by (simp only: PX)
  have sum0: "is_mat nf k (mat_add (smult ?r yb) (mat_mult C ?ue))"
    by (rule is_mat_add [OF is_mat_smult [OF yb] nf])
  have b0: "mat_mult Mf (mat_add (smult ?r yb) (mat_mult C ?ue)) = mat_add ?R (mat_sub ?P ?E)"
    by (simp add: mat_mult_add_right [OF Mf is_mat_smult [OF yb] Cue nf]
        mat_mult_smult_right [OF Mf yb nf] Q)
  have b1: "mat_mult Mf (mat_sub (mat_add (smult ?r yb) (mat_mult C ?ue)) (smult ?r ybp)) =
      mat_sub (mat_add ?R (mat_sub ?P ?E)) ?S"
    by (simp add: mat_mult_sub_right [OF Mf sum0 is_mat_smult [OF ybp] nf] b0
        mat_mult_smult_right [OF Mf ybp nf])
  have lhs: "mat_mult (systemMatrix Mf C MsI dt) yb = mat_add ?P ?R"
    unfolding systemMatrix_def
    by (simp add: mat_mult_add_left [OF X is_mat_smult [OF Mf] yb nf nf]
        mat_mult_smult_left [OF Mf yb nf])
  show ?thesis
  proof (cases "t = 0")
    case True
    with solved lhs have "mat_add ?P ?R = mat_add ?E ?B"
      by (simp add: Ah_rhs_def Ah_forcing_def)
    then show ?thesis
      using True by (simp add: AhVec_b_spec_def b0 cancel_first_solve [OF P R E B nf])
  next
    case False
    with solved lhs have "mat_add ?P ?R = mat_add (mat_add ?E ?B) ?S"
      by (simp add: Ah_rhs_def Ah_forcing_def)
    then show ?thesis
      using False by (simp add: AhVec_b_spec_def b1 cancel_later_solve [OF P R E B S nf])
  qed
qed

subsection \<open>The claims on the adjoint solve\<close>

text \<open>
  Claim C3. For a model \<open>m\<close> and a perturbation history \<open>p\<close>, \<^verbatim>\<open>solveAh\<close> runs the time-stepping
  driver of the forward solve with the matrix of \<^verbatim>\<open>getA\<close>, unchanged. At the step \<open>tInd\<close> the
  right-hand side is \<open>MfMui \<cdot> edgeCurl \<cdot> MeSigmaI \<cdot> p.e[tInd] + MfMui \<cdot> p.b[tInd]\<close>, to which
  \<open>(1/dt) \<cdot> MfMui \<cdot> b[tInd-1]\<close> is added only when \<open>tInd > 0\<close>, and the field stored after the
  solve is \<open>e[tInd] = MeSigmaI \<cdot> edgeCurl\<^sup>T \<cdot> MfMui \<cdot> b[tInd] - MeSigmaI \<cdot> p.e[tInd]\<close>.

  The statement has two halves. Whenever \<^verbatim>\<open>solveAh\<close> returns, the object holds the mass matrices
  of \<open>m\<close> and every stored \<open>b[tInd]\<close> is what the solver answered for the matrix of \<^verbatim>\<open>getA\<close>
  and this right-hand side, with \<open>e[tInd]\<close> derived by the rule. Conversely, when the solver
  answers \<open>yb t\<close> of the shape of the mesh at every step, \<^verbatim>\<open>solveAh\<close> returns the history of these
  answers.
\<close>

theorem solveAh_time_stepping:
  assumes "is_mat nf ne (edgeCurl (mesh st))" and "0 < nf" and "0 < ne"
    and "nF (mesh st) = nf" and "nE (mesh st) = ne"
    and "is_mat nf nf (buildMfMui st m)" and "is_mat ne ne (buildMeSigmaI st m)"
    and "\<forall>t < length (timeSteps st). timeSteps st ! t \<noteq> 0"
    and "\<forall>t < length (timeSteps st). get_e p (int t) = Some (pe t) \<and> is_mat ne 1 (pe t) \<and>
              get_b p (int t) = Some (pb t) \<and> is_mat nf 1 (pb t)"
  shows "(\<forall>Y st'. solveAh st m p = Some (Y, st') \<longrightarrow>
       st' = makeMassMatrices st m \<and>
       (\<forall>t < length (timeSteps st). \<exists>A sol bp.
          getA st' (int t) = Some A \<and>
          A = systemMatrix (buildMfMui st m) (edgeCurl (mesh st)) (buildMeSigmaI st m) (timeSteps st ! t) \<and>
          (0 < t \<longrightarrow> get_b Y (int t - 1) = Some bp) \<and>
          Solver st A
            (Ah_rhs (buildMfMui st m) (edgeCurl (mesh st)) (buildMeSigmaI st m) (pe t) (pb t)
               (timeSteps st ! t) (int t) bp) = Some sol \<and>
          get_b Y (int t) = Some sol \<and> is_mat nf 1 sol \<and>
          get_e Y (int t) =
            Some (Ah_e (buildMfMui st m) (edgeCurl (mesh st)) (buildMeSigmaI st m) sol (pe t)))) \<and>
     (\<forall>yb. (\<forall>t < length (timeSteps st).
          Solver st (systemMatrix (buildMfMui st m) (edgeCurl (mesh st)) (buildMeSigmaI st m) (timeSteps st ! t))
            (Ah_rhs (buildMfMui st m) (edgeCurl (mesh st)) (buildMeSigmaI st m) (pe t) (pb t)
               (timeSteps st ! t) (int t) (yb (t - 1))) = Some (yb t) \<and> is_mat nf 1 (yb t)) \<longrightarrow>
       (\<exists>Y. solveAh st m p = Some (Y, makeMassMatrices st m) \<and>
          (\<forall>t < length (timeSteps st). get_b Y (int t) = Some (yb t) \<and>
             get_e Y (int t) =
               Some (Ah_e (buildMfMui st m) (edgeCurl (mesh st)) (buildMeSigmaI st m) (yb t) (pe t)))))"
proof (rule conjI)
  show "\<forall>Y st'. solveAh st m p = Some (Y, st') \<longrightarrow>
       st' = makeMassMatrices st m \<and>
       (\<forall>t < length (timeSteps st). \<exists>A sol bp.
          getA st' (int t) = Some A \<and>
          A = systemMatrix (buildMfMui st m) (edgeCurl (mesh st)) (buildMeSigmaI st m) (timeSteps st ! t) \<and>
          (0 < t \<longrightarrow> get_b Y (int t - 1) = Some bp) \<and>
          Solver st A
            (Ah_rhs (buildMfMui st m) (edgeCurl (mesh st)) (buildMeSigmaI st m) (pe t) (pb t)
               (timeSteps st ! t) (int t) bp) = Some sol \<and>
          get_b Y (int t) = Some sol \<and> is_mat nf 1 sol \<and>
          get_e Y (int t) =
            Some (Ah_e (buildMfMui st m) (edgeCurl (mesh st)) (buildMeSigmaI st m) sol (pe t)))"
  proof (intro allI impI)
    fix Y st' assume run: "solveAh st m p = Some (Y, st')"
    show "st' = makeMassMatrices st m \<and>
       (\<forall>t < length (timeSteps st). \<exists>A sol bp.
          getA st' (int t) = Some A \<and>
          A = systemMatrix (buildMfMui st m) (edgeCurl (mesh st)) (buildMeSigmaI st m) (timeSteps st ! t) \<and>
          (0 < t \<longrightarrow> get_b Y (int t - 1) = Some bp) \<and>
          Solver st A
            (Ah_rhs (buildMfMui st m) (edgeCurl (mesh st)) (buildMeSigmaI st m) (pe t) (pb t)
               (timeSteps st ! t) (int t) bp) = Some sol \<and>
          get_b Y (int t) = Some sol \<and> is_mat nf 1 sol \<and>
          get_e Y (int t) =
            Some (Ah_e (buildMfMui st m) (edgeCurl (mesh st)) (buildMeSigmaI st m) sol (pe t)))"
      by (rule solveAh_backward [OF assms run])
  qed
next
  show "\<forall>yb. (\<forall>t < length (timeSteps st).
          Solver st (systemMatrix (buildMfMui st m) (edgeCurl (mesh st)) (buildMeSigmaI st m) (timeSteps st ! t))
            (Ah_rhs (buildMfMui st m) (edgeCurl (mesh st)) (buildMeSigmaI st m) (pe t) (pb t)
               (timeSteps st ! t) (int t) (yb (t - 1))) = Some (yb t) \<and> is_mat nf 1 (yb t)) \<longrightarrow>
       (\<exists>Y. solveAh st m p = Some (Y, makeMassMatrices st m) \<and>
          (\<forall>t < length (timeSteps st). get_b Y (int t) = Some (yb t) \<and>
             get_e Y (int t) =
               Some (Ah_e (buildMfMui st m) (edgeCurl (mesh st)) (buildMeSigmaI st m) (yb t) (pe t))))"
  proof (intro allI impI)
    fix yb assume h: "\<forall>t < length (timeSteps st).
          Solver st (systemMatrix (buildMfMui st m) (edgeCurl (mesh st)) (buildMeSigmaI st m) (timeSteps st ! t))
            (Ah_rhs (buildMfMui st m) (edgeCurl (mesh st)) (buildMeSigmaI st m) (pe t) (pb t)
               (timeSteps st ! t) (int t) (yb (t - 1))) = Some (yb t) \<and> is_mat nf 1 (yb t)"
    show "\<exists>Y. solveAh st m p = Some (Y, makeMassMatrices st m) \<and>
          (\<forall>t < length (timeSteps st). get_b Y (int t) = Some (yb t) \<and>
             get_e Y (int t) =
               Some (Ah_e (buildMfMui st m) (edgeCurl (mesh st)) (buildMeSigmaI st m) (yb t) (pe t)))"
      by (rule solveAh_forward [OF assms h])
  qed
qed

theorem solveAh_time_stepping_witness:
  "is_mat 2 3 (edgeCurl (mesh ex_problem)) \<and> nF (mesh ex_problem) = 2 \<and> nE (mesh ex_problem) = 3 \<and>
   is_mat 2 2 (buildMfMui ex_problem ex_m) \<and> is_mat 3 3 (buildMeSigmaI ex_problem ex_m) \<and>
   length (timeSteps ex_problem) = 2 \<and>
   (\<exists>Y. solveAh ex_problem ex_m ex_u = Some (Y, makeMassMatrices ex_problem ex_m) \<and>
      get_b Y 0 = Some [[6 / 13], [- (9 / 143)]] \<and>
      get_b Y 1 = Some [[71 / 91], [- (4178 / 15015)]] \<and>
      get_e Y 1 = Some [[34267 / 30030], [- (17543 / 30030)], [- (49 / 110)]] \<and>
      (\<exists>A sol bp. getA (makeMassMatrices ex_problem ex_m) 1 = Some A \<and>
         A = [[45 / 4, 15 / 2], [15 / 2, 45 / 2]] \<and>
         get_b Y 0 = Some bp \<and>
         Solver ex_problem A
           (Ah_rhs ex_Mf (edgeCurl (mesh ex_problem)) (diag3 (map inverse ex_m)) (ex_ue 1) (ex_ub 1)
              (1 / 4) 1 bp) = Some sol \<and>
         get_b Y 1 = Some sol \<and>
         get_e Y 1 = Some (Ah_e ex_Mf (edgeCurl (mesh ex_problem)) (diag3 (map inverse ex_m)) sol (ex_ue 1))))"
proof -
  have pos: "(0::nat) < 2" "(0::nat) < 3" by simp_all
  have h1: "is_mat 2 3 (edgeCurl (mesh ex_problem))" by code_simp
  have h2: "nF (mesh ex_problem) = 2" "nE (mesh ex_problem) = 3" by code_simp+
  have h3: "is_mat 2 2 (buildMfMui ex_problem ex_m)" by code_simp
  have h5: "is_mat 3 3 (buildMeSigmaI ex_problem ex_m)" by code_simp
  have h7: "length (timeSteps ex_problem) = 2" by code_simp
  have i0: "(0::nat) < length (timeSteps ex_problem)" and i1: "(1::nat) < length (timeSteps ex_problem)"
    by (simp_all add: h7)
  have b: "buildMfMui ex_problem ex_m = ex_Mf" "buildMeSigmaI ex_problem ex_m = diag3 (map inverse ex_m)"
    "timeSteps ex_problem ! 1 = 1 / 4"
    by code_simp+
  note t = solveAh_time_stepping [OF h1 pos h2 h3 h5 ex_dts ex_p_entries]
  obtain Y where Y: "solveAh ex_problem ex_m ex_u = Some (Y, makeMassMatrices ex_problem ex_m)"
    and Yi: "\<forall>t < length (timeSteps ex_problem). get_b Y (int t) = Some (ex_yb t) \<and>
             get_e Y (int t) =
               Some (Ah_e (buildMfMui ex_problem ex_m) (edgeCurl (mesh ex_problem))
                       (buildMeSigmaI ex_problem ex_m) (ex_yb t) (ex_ue t))"
    using t [THEN conjunct2, THEN spec [where x = ex_yb], THEN mp, OF ex_solver_answers] by blast
  have v: "ex_yb 0 = [[6 / 13], [- (9 / 143)]]" "ex_yb 1 = [[71 / 91], [- (4178 / 15015)]]"
    "Ah_e ex_Mf (edgeCurl (mesh ex_problem)) (diag3 (map inverse ex_m))
       [[71 / 91], [- (4178 / 15015)]] (ex_ue 1) =
       [[34267 / 30030], [- (17543 / 30030)], [- (49 / 110)]]"
    by code_simp+
  have y0: "get_b Y 0 = Some [[6 / 13], [- (9 / 143)]]"
    using Yi [rule_format, OF i0] by (simp only: of_nat_0 v)
  have y1: "get_b Y 1 = Some [[71 / 91], [- (4178 / 15015)]] \<and>
      get_e Y 1 = Some [[34267 / 30030], [- (17543 / 30030)], [- (49 / 110)]]"
    using Yi [rule_format, OF i1] by (simp only: of_nat_1 v b)
  have exA: "systemMatrix ex_Mf (edgeCurl (mesh ex_problem)) (diag3 (map inverse ex_m)) (1 / 4) =
      [[45 / 4, 15 / 2], [15 / 2, 45 / 2]]" by code_simp
  have step: "\<exists>A sol bp. getA (makeMassMatrices ex_problem ex_m) 1 = Some A \<and>
         A = [[45 / 4, 15 / 2], [15 / 2, 45 / 2]] \<and>
         get_b Y 0 = Some bp \<and>
         Solver ex_problem A
           (Ah_rhs ex_Mf (edgeCurl (mesh ex_problem)) (diag3 (map inverse ex_m)) (ex_ue 1) (ex_ub 1)
              (1 / 4) 1 bp) = Some sol \<and>
         get_b Y 1 = Some sol \<and>
         get_e Y 1 = Some (Ah_e ex_Mf (edgeCurl (mesh ex_problem)) (diag3 (map inverse ex_m)) sol (ex_ue 1))"
    using t [THEN conjunct1, THEN spec, THEN spec, THEN mp, OF Y, THEN conjunct2, rule_format, OF i1]
    unfolding b exA by auto
  from h1 h2 h3 h5 h7 Y y0 y1 step show ?thesis
    by (intro conjI exI [of _ Y]) simp_all
qed

text \<open>
  Claim C1. For a model \<open>m\<close> and a field history \<open>u\<close> of the shape of the mesh and of the length
  of the time mesh, \<^verbatim>\<open>solveAh(m, AhVec(m, u))\<close> reconstructs \<open>u\<close>: the residual operator followed
  by the adjoint solve gives the history back. Arithmetic is exact, \<^verbatim>\<open>MeSigmaI\<close> is the inverse of
  \<^verbatim>\<open>MeSigma\<close>, and the linear solver solves every system of the run: applied to the matrix of a
  time step and to the product of this matrix with a vector, it returns the vector.
\<close>

theorem solveAh_inverts_AhVec:
  assumes C: "is_mat nf ne (edgeCurl (mesh st))" and nf: "0 < nf" and ne: "0 < ne"
    and msh: "nF (mesh st) = nf" "nE (mesh st) = ne"
    and Mf: "is_mat nf nf (buildMfMui st m)" and Ms: "is_mat ne ne (buildMeSigma st m)"
    and MsI: "is_mat ne ne (buildMeSigmaI st m)"
    and inv: "mat_mult (buildMeSigmaI st m) (buildMeSigma st m) = id_mat ne"
    and n: "0 < length (timeSteps st)"
    and dts: "\<forall>i < length (timeSteps st). timeSteps st ! i \<noteq> 0"
    and u: "\<forall>i < length (timeSteps st). get_b u (int i) = Some (ub i) \<and> is_mat nf 1 (ub i) \<and>
              get_e u (int i) = Some (ue i) \<and> is_mat ne 1 (ue i)"
    and solver: "\<forall>t < length (timeSteps st). \<forall>x. is_mat nf 1 x \<longrightarrow>
        Solver st (systemMatrix (buildMfMui st m) (edgeCurl (mesh st)) (buildMeSigmaI st m) (timeSteps st ! t))
          (mat_mult (systemMatrix (buildMfMui st m) (edgeCurl (mesh st)) (buildMeSigmaI st m)
             (timeSteps st ! t)) x) = Some x"
  shows "\<exists>f Y. AhVec st m (Some u) = Some (f, makeMassMatrices st m) \<and>
     solveAh (makeMassMatrices st m) m f = Some (Y, makeMassMatrices st m) \<and>
     (\<forall>i < length (timeSteps st).
        get_b Y (int i) = get_b u (int i) \<and> get_e Y (int i) = get_e u (int i))"
proof -
  let ?st1 = "makeMassMatrices st m"
  let ?n = "length (timeSteps st)"
  let ?C = "edgeCurl (mesh st)"
  let ?Mf = "buildMfMui st m" and ?Ms = "buildMeSigma st m" and ?MsI = "buildMeSigmaI st m"
  let ?pb = "\<lambda>i. AhVec_b_spec ?C (timeSteps st ! i) i (ub i) (ue i) (ub (i - 1))"
  let ?pe = "\<lambda>i. AhVec_e_spec ?C ?Mf ?Ms (ub i) (ue i)"
  obtain f where f: "AhVec st m (Some u) = Some (f, ?st1)"
    and fi: "\<forall>i < ?n. get_b f (int i) = Some (?pb i) \<and> get_e f (int i) = Some (?pe i)"
    using AhVec_value [OF C nf ne msh Mf Ms n dts u] by blast
  have ui: "is_mat nf 1 (ub i)" "is_mat ne 1 (ue i)" if "i < ?n" for i
    using u that by simp_all
  have prev: "is_mat nf 1 (ub (i - 1))" if "i < ?n" for i
    using ui(1) [of "i - 1"] that by simp
  have p1: "\<forall>t < length (timeSteps ?st1). get_e f (int t) = Some (?pe t) \<and> is_mat ne 1 (?pe t) \<and>
              get_b f (int t) = Some (?pb t) \<and> is_mat nf 1 (?pb t)"
    using fi ui
    by (simp add: makeMassMatrices_simps is_mat_AhVec_b_spec [OF _ nf]
        is_mat_AhVec_e_spec [OF C Mf _ nf ne])
  have rhs: "Ah_rhs ?Mf ?C ?MsI (?pe t) (?pb t) (timeSteps st ! t) (int t) (ub (t - 1)) =
      mat_mult (systemMatrix ?Mf ?C ?MsI (timeSteps st ! t)) (ub t)" if "t < ?n" for t
    by (rule rhs_of_residual [OF C nf ne Mf Ms MsI inv ui(1) [OF that] ui(2) [OF that] prev [OF that]])
  have sol1: "\<forall>t < length (timeSteps ?st1).
        Solver ?st1 (systemMatrix (buildMfMui ?st1 m) (edgeCurl (mesh ?st1)) (buildMeSigmaI ?st1 m)
            (timeSteps ?st1 ! t))
          (Ah_rhs (buildMfMui ?st1 m) (edgeCurl (mesh ?st1)) (buildMeSigmaI ?st1 m) (?pe t) (?pb t)
             (timeSteps ?st1 ! t) (int t) (ub (t - 1))) = Some (ub t) \<and> is_mat nf 1 (ub t)"
  proof (intro allI impI)
    fix t assume "t < length (timeSteps ?st1)"
    then have t: "t < ?n" by (simp add: makeMassMatrices_simps)
    show "Solver ?st1 (systemMatrix (buildMfMui ?st1 m) (edgeCurl (mesh ?st1)) (buildMeSigmaI ?st1 m)
            (timeSteps ?st1 ! t))
          (Ah_rhs (buildMfMui ?st1 m) (edgeCurl (mesh ?st1)) (buildMeSigmaI ?st1 m) (?pe t) (?pb t)
             (timeSteps ?st1 ! t) (int t) (ub (t - 1))) = Some (ub t) \<and> is_mat nf 1 (ub t)"
      unfolding makeMassMatrices_simps makeMassMatrices_builders rhs [OF t]
      using solver ui(1) [OF t] t by blast
  qed
  have "\<exists>Y. solveAh ?st1 m f = Some (Y, makeMassMatrices ?st1 m) \<and>
     (\<forall>t < length (timeSteps ?st1). get_b Y (int t) = Some (ub t) \<and>
        get_e Y (int t) =
          Some (Ah_e (buildMfMui ?st1 m) (edgeCurl (mesh ?st1)) (buildMeSigmaI ?st1 m) (ub t) (?pe t)))"
    by (rule solveAh_forward [OF _ nf ne _ _ _ _ _ p1 sol1])
       (simp_all add: makeMassMatrices_simps makeMassMatrices_builders C msh Mf MsI dts)
  then obtain Y where Y: "solveAh ?st1 m f = Some (Y, ?st1)"
    and Yi: "\<forall>t < ?n. get_b Y (int t) = Some (ub t) \<and>
        get_e Y (int t) = Some (Ah_e ?Mf ?C ?MsI (ub t) (?pe t))"
    by (auto simp: makeMassMatrices_simps makeMassMatrices_builders)
  have "get_b Y (int i) = get_b u (int i) \<and> get_e Y (int i) = get_e u (int i)" if "i < ?n" for i
    using Yi u that
    by (simp add: Ah_e_of_residual [OF C nf ne Mf Ms MsI inv ui(1) [OF that] ui(2) [OF that]])
  then show ?thesis using f Y by blast
qed

theorem solveAh_inverts_AhVec_witness:
  "is_mat 2 3 (edgeCurl (mesh ex_problem)) \<and> nF (mesh ex_problem) = 2 \<and> nE (mesh ex_problem) = 3 \<and>
   is_mat 2 2 (buildMfMui ex_problem ex_m) \<and> is_mat 3 3 (buildMeSigma ex_problem ex_m) \<and>
   is_mat 3 3 (buildMeSigmaI ex_problem ex_m) \<and>
   mat_mult (buildMeSigmaI ex_problem ex_m) (buildMeSigma ex_problem ex_m) = id_mat 3 \<and>
   length (timeSteps ex_problem) = 2 \<and>
   get_b ex_u 0 = Some [[1], [2]] \<and> get_e ex_u 0 = Some [[1], [0], [2]] \<and>
   get_b ex_u 1 = Some [[3], [-1]] \<and> get_e ex_u 1 = Some [[-1], [1], [1 / 2]] \<and>
   (\<exists>f Y. AhVec ex_problem ex_m (Some ex_u) = Some (f, makeMassMatrices ex_problem ex_m) \<and>
      solveAh (makeMassMatrices ex_problem ex_m) ex_m f = Some (Y, makeMassMatrices ex_problem ex_m) \<and>
      get_b f 0 = Some [[3], [2]] \<and> get_e f 0 = Some [[2], [3], [-9]] \<and>
      get_b f 1 = Some [[6], [- (23 / 2)]] \<and> get_e f 1 = Some [[7], [-9], [- (1 / 2)]] \<and>
      get_b Y 0 = Some [[1], [2]] \<and> get_e Y 0 = Some [[1], [0], [2]] \<and>
      get_b Y 1 = Some [[3], [-1]] \<and> get_e Y 1 = Some [[-1], [1], [1 / 2]])"
proof -
  have pos: "(0::nat) < 2" "(0::nat) < 3" by simp_all
  have h1: "is_mat 2 3 (edgeCurl (mesh ex_problem))" by code_simp
  have h2: "nF (mesh ex_problem) = 2" "nE (mesh ex_problem) = 3" by code_simp+
  have h3: "is_mat 2 2 (buildMfMui ex_problem ex_m)" by code_simp
  have h4: "is_mat 3 3 (buildMeSigma ex_problem ex_m)" by code_simp
  have h5: "is_mat 3 3 (buildMeSigmaI ex_problem ex_m)" by code_simp
  have h6: "mat_mult (buildMeSigmaI ex_problem ex_m) (buildMeSigma ex_problem ex_m) = id_mat 3"
    by code_simp
  have h7: "length (timeSteps ex_problem) = 2" by code_simp
  have h8: "0 < length (timeSteps ex_problem)" by (simp add: h7)
  have u: "get_b ex_u 0 = Some [[1], [2]]" "get_e ex_u 0 = Some [[1], [0], [2]]"
    "get_b ex_u 1 = Some [[3], [-1]]" "get_e ex_u 1 = Some [[-1], [1], [1 / 2]]"
    by code_simp+
  obtain f Y where f: "AhVec ex_problem ex_m (Some ex_u) = Some (f, makeMassMatrices ex_problem ex_m)"
    and Y: "solveAh (makeMassMatrices ex_problem ex_m) ex_m f = Some (Y, makeMassMatrices ex_problem ex_m)"
    and r: "\<forall>i < length (timeSteps ex_problem).
        get_b Y (int i) = get_b ex_u (int i) \<and> get_e Y (int i) = get_e ex_u (int i)"
    using solveAh_inverts_AhVec [OF h1 pos h2 h3 h4 h5 h6 h8 ex_dts ex_u_entries ex_solver_exact]
    by blast
  have i0: "(0::nat) < length (timeSteps ex_problem)" and i1: "(1::nat) < length (timeSteps ex_problem)"
    by (simp_all add: h7)
  have y: "get_b Y 0 = Some [[1], [2]]" "get_e Y 0 = Some [[1], [0], [2]]"
    "get_b Y 1 = Some [[3], [-1]]" "get_e Y 1 = Some [[-1], [1], [1 / 2]]"
    using r [rule_format, OF i0] r [rule_format, OF i1] u by simp_all
  have fv: "map_option fst (AhVec ex_problem ex_m (Some ex_u)) =
      Some \<lparr>fmesh = ex_mesh, nTx = 1, nTimes = 2, b0 = None,
        b_hist = [Some [[3], [2]], Some [[6], [- (23 / 2)]]],
        e_hist = [Some [[2], [3], [-9]], Some [[7], [-9], [- (1 / 2)]]]\<rparr>"
    by code_simp
  have feq: "f = \<lparr>fmesh = ex_mesh, nTx = 1, nTimes = 2, b0 = None,
        b_hist = [Some [[3], [2]], Some [[6], [- (23 / 2)]]],
        e_hist = [Some [[2], [3], [-9]], Some [[7], [-9], [- (1 / 2)]]]\<rparr>"
    using fv f by simp
  have fvals: "get_b f 0 = Some [[3], [2]]" "get_e f 0 = Some [[2], [3], [-9]]"
      "get_b f 1 = Some [[6], [- (23 / 2)]]" "get_e f 1 = Some [[7], [-9], [- (1 / 2)]]"
    unfolding feq by code_simp+
  from h1 h2 h3 h4 h5 h6 h7 u f Y y fvals show ?thesis
    by (intro conjI exI [of _ f] exI [of _ Y]) simp_all
qed

text \<open>
  The two operators are inverse to each other: the composition in the other order,
  \<^verbatim>\<open>AhVec(m, solveAh(m, p))\<close>, gives \<open>p\<close> back as well. Here the answers of the solver solve
  their systems, \<^verbatim>\<open>MeSigma\<close> times \<^verbatim>\<open>MeSigmaI\<close> is the identity, and \<^verbatim>\<open>MfMui\<close> has an inverse.
\<close>

lemma AhVec_inverts_solveAh:
  assumes C: "is_mat nf ne (edgeCurl (mesh st))" and nf: "0 < nf" and ne: "0 < ne"
    and msh: "nF (mesh st) = nf" "nE (mesh st) = ne"
    and Mf: "is_mat nf nf (buildMfMui st m)" and Ms: "is_mat ne ne (buildMeSigma st m)"
    and MsI: "is_mat ne ne (buildMeSigmaI st m)"
    and inv: "mat_mult (buildMeSigma st m) (buildMeSigmaI st m) = id_mat ne"
    and MfI: "is_mat nf nf MfI" "mat_mult MfI (buildMfMui st m) = id_mat nf"
    and n: "0 < length (timeSteps st)"
    and dts: "\<forall>t < length (timeSteps st). timeSteps st ! t \<noteq> 0"
    and p: "\<forall>t < length (timeSteps st). get_e p (int t) = Some (pe t) \<and> is_mat ne 1 (pe t) \<and>
              get_b p (int t) = Some (pb t) \<and> is_mat nf 1 (pb t)"
    and solver: "\<forall>t < length (timeSteps st). \<forall>y x.
        Solver st (systemMatrix (buildMfMui st m) (edgeCurl (mesh st)) (buildMeSigmaI st m) (timeSteps st ! t)) y
          = Some x \<longrightarrow>
        mat_mult (systemMatrix (buildMfMui st m) (edgeCurl (mesh st)) (buildMeSigmaI st m)
             (timeSteps st ! t)) x = y"
    and run: "solveAh st m p = Some (Y, st1)"
  shows "\<exists>f st2. AhVec st1 m (Some Y) = Some (f, st2) \<and>
     (\<forall>t < length (timeSteps st).
        get_b f (int t) = get_b p (int t) \<and> get_e f (int t) = get_e p (int t))"
proof -
  let ?n = "length (timeSteps st)"
  let ?C = "edgeCurl (mesh st)"
  let ?Mf = "buildMfMui st m" and ?Ms = "buildMeSigma st m" and ?MsI = "buildMeSigmaI st m"
  let ?A = "\<lambda>t. systemMatrix ?Mf ?C ?MsI (timeSteps st ! t)"
  note bw = solveAh_backward [OF C nf ne msh Mf MsI dts p run]
  have st1: "st1 = makeMassMatrices st m" using bw by (rule conjunct1)
  define yb where "yb t = the (get_b Y (int t))" for t
  have pi: "get_e p (int t) = Some (pe t)" "is_mat ne 1 (pe t)"
      "get_b p (int t) = Some (pb t)" "is_mat nf 1 (pb t)" if "t < ?n" for t
    using p that by simp_all
  have step: "get_b Y (int t) = Some (yb t) \<and> is_mat nf 1 (yb t) \<and>
      get_e Y (int t) = Some (Ah_e ?Mf ?C ?MsI (yb t) (pe t)) \<and>
      mat_mult (?A t) (yb t) = Ah_rhs ?Mf ?C ?MsI (pe t) (pb t) (timeSteps st ! t) (int t) (yb (t - 1))"
    if t: "t < ?n" for t
  proof -
    obtain A sol bp where s: "A = ?A t" "0 < t \<longrightarrow> get_b Y (int t - 1) = Some bp"
        "Solver st A (Ah_rhs ?Mf ?C ?MsI (pe t) (pb t) (timeSteps st ! t) (int t) bp) = Some sol"
        "get_b Y (int t) = Some sol" "is_mat nf 1 sol"
        "get_e Y (int t) = Some (Ah_e ?Mf ?C ?MsI sol (pe t))"
      using conjunct2 [OF bw, rule_format, OF t] by blast
    have sol: "sol = yb t" using s(4) by (simp add: yb_def)
    have solved: "mat_mult (?A t) sol = Ah_rhs ?Mf ?C ?MsI (pe t) (pb t) (timeSteps st ! t) (int t) bp"
      using solver [rule_format, OF t] s(1,3) by blast
    have "Ah_rhs ?Mf ?C ?MsI (pe t) (pb t) (timeSteps st ! t) (int t) bp =
          Ah_rhs ?Mf ?C ?MsI (pe t) (pb t) (timeSteps st ! t) (int t) (yb (t - 1))"
    proof (cases "t = 0")
      case True
      then show ?thesis by (simp add: Ah_rhs_def)
    next
      case False
      then have "int (t - 1) = int t - 1" by (simp add: of_nat_diff)
      then have "bp = yb (t - 1)" using s(2) False by (simp add: yb_def)
      then show ?thesis by simp
    qed
    then show ?thesis using s(4,5,6) solved sol by simp
  qed
  let ?ue = "\<lambda>t. Ah_e ?Mf ?C ?MsI (yb t) (pe t)"
  have ysh: "is_mat nf 1 (yb t)" if "t < ?n" for t using step [OF that] by simp
  have prevsh: "is_mat nf 1 (yb (t - 1))" if "t < ?n" for t using ysh [of "t - 1"] that by simp
  have ush: "is_mat ne 1 (?ue t)" if "t < ?n" for t
    by (rule is_mat_Ah_e [OF C nf ne Mf MsI ysh [OF that]])
  have Yi: "\<forall>i < length (timeSteps st1). get_b Y (int i) = Some (yb i) \<and> is_mat nf 1 (yb i) \<and>
              get_e Y (int i) = Some (?ue i) \<and> is_mat ne 1 (?ue i)"
    using step ush by (simp add: st1 makeMassMatrices_simps)
  have "\<exists>f. AhVec st1 m (Some Y) = Some (f, makeMassMatrices st1 m) \<and>
     (\<forall>i < length (timeSteps st1).
        get_b f (int i) =
          Some (AhVec_b_spec (edgeCurl (mesh st1)) (timeSteps st1 ! i) i (yb i) (?ue i) (yb (i - 1))) \<and>
        get_e f (int i) =
          Some (AhVec_e_spec (edgeCurl (mesh st1)) (buildMfMui st1 m) (buildMeSigma st1 m) (yb i) (?ue i)))"
    by (rule AhVec_value [OF _ nf ne _ _ _ _ _ _ Yi])
       (use n in \<open>simp_all add: st1 makeMassMatrices_simps makeMassMatrices_builders C msh Mf Ms dts\<close>)
  then obtain f where f: "AhVec st1 m (Some Y) = Some (f, makeMassMatrices st1 m)"
    and fi: "\<forall>i < ?n.
        get_b f (int i) = Some (AhVec_b_spec ?C (timeSteps st ! i) i (yb i) (?ue i) (yb (i - 1))) \<and>
        get_e f (int i) = Some (AhVec_e_spec ?C ?Mf ?Ms (yb i) (?ue i))"
    by (auto simp: st1 makeMassMatrices_simps makeMassMatrices_builders)
  have "get_b f (int t) = get_b p (int t) \<and> get_e f (int t) = get_e p (int t)" if t: "t < ?n" for t
  proof -
    let ?b' = "AhVec_b_spec ?C (timeSteps st ! t) t (yb t) (?ue t) (yb (t - 1))"
    have e: "AhVec_e_spec ?C ?Mf ?Ms (yb t) (?ue t) = pe t"
      by (rule residual_of_Ah_e [OF C nf ne Mf Ms MsI inv ysh [OF t] pi(2) [OF t]])
    have "mat_mult ?Mf ?b' = mat_mult ?Mf (pb t)"
      by (rule Mf_residual_of_solution [OF C nf ne Mf MsI ysh [OF t] prevsh [OF t] pi(2) [OF t]
            pi(4) [OF t]]) (use step [OF t] in simp)
    then have b: "?b' = pb t"
      by (rule left_cancel [OF MfI(1) Mf nf MfI(2) is_mat_AhVec_b_spec [OF ysh [OF t] nf] pi(4) [OF t]])
    show ?thesis
      using fi [rule_format, OF t] pi(1) [OF t] pi(3) [OF t] by (simp only: e b)
  qed
  then show ?thesis using f by blast
qed

end
